theory Spec2Isabelle
  imports Complex_Main "HOL-Library.Word" "HOL-Library.Signed_Division" "HOL-Library.Multiset"
begin

section \<open>Index conversion (IndexConversion.hpp)\<close>

text \<open>
  The two conversions between TAI timestamps and grain indices are pure functions over
  fixed-width integers. Their operands are widened to \<^verbatim>\<open>__int128_t\<close>, combined there,
  divided with the truncating division of C++, and the quotient is narrowed to 64 bits by
  a \<^verbatim>\<open>static_cast\<close>.

  The 128-bit operations are modelled on \<^typ>\<open>128 word\<close>: widening a signed operand is
  \<^const>\<open>scast\<close>, widening the unsigned index is \<^const>\<open>ucast\<close>, narrowing keeps the low
  64 bits (\<^const>\<open>ucast\<close> again), and the division is \<open>div128\<close> below, which reads both
  words as two's complement numbers and truncates the quotient towards zero.

  Signed overflow, which C++ leaves undefined, wraps around on words. It cannot happen in
  \<open>timestampToIndex\<close> (lemma \<open>timestampToIndex_int\<close> below); it can in the product
  \<^verbatim>\<open>index * den * 1'000'000'000\<close> of \<open>indexToTimestamp\<close>, and every statement about that
  function is made where the product fits.
\<close>

type_synonym int128 = "128 word"

text \<open>
  Modelled from the spec: \<^verbatim>\<open>mxl/rational.h\<close> (the declaration of \<^verbatim>\<open>mxlRational\<close>) is not
  part of the sources at hand. The edit rate is a pair of 64-bit integers (the header
  layout reserves 16 bytes for \<^verbatim>\<open>editRate{num,den}\<close>); both are read as signed numbers,
  which is what makes "positive numerator and denominator" a restriction.
\<close>

record mxlRational =
  numerator :: "64 word"
  denominator :: "64 word"

text \<open>
  Modelled from the spec: \<^verbatim>\<open>Timing.hpp\<close> (the declaration of \<^verbatim>\<open>Timepoint\<close>) is not part of
  the sources at hand. A timepoint is a count of nanoseconds since the TAI epoch held in a
  signed 64-bit member \<^verbatim>\<open>value\<close>; a default-constructed timepoint holds zero.
\<close>

record Timepoint =
  tp_value :: "64 word"

text \<open>
  Modelled from the spec: the macro \<^verbatim>\<open>MXL_UNDEFINED_INDEX\<close> is declared in a public header
  that is not part of the sources at hand. The reserved value is \<open>2\<^sup>6\<^sup>4 - 1\<close>.
\<close>

definition MXL_UNDEFINED_INDEX :: "64 word" where
  "MXL_UNDEFINED_INDEX = word_of_int (2 ^ 64 - 1)"

text \<open>
  The operator \<^verbatim>\<open>/\<close> on \<^verbatim>\<open>__int128_t\<close>: the quotient of the two signed values, rounded
  towards zero.
\<close>

definition div128 :: "int128 \<Rightarrow> int128 \<Rightarrow> int128" where
  "div128 a b = word_of_int (sint a sdiv sint b)"

text \<open>
  \<^verbatim>\<open>
  constexpr std::uint64_t timestampToIndex(mxlRational const& editRate, Timepoint timestamp) noexcept
  {
      if ((editRate.denominator != 0) && (editRate.numerator != 0))
      {
          return static_cast<std::uint64_t>(
              (timestamp.value * __int128_t{editRate.numerator} + 500'000'000 * __int128_t{editRate.denominator}) /
              (1'000'000'000 * __int128_t{editRate.denominator}));
      }
      else
      {
          return MXL_UNDEFINED_INDEX;
      }
  }
  \<close>
\<close>

definition timestampToIndex :: "mxlRational \<Rightarrow> Timepoint \<Rightarrow> 64 word" where
  "timestampToIndex editRate timestamp =
     (if denominator editRate \<noteq> 0 \<and> numerator editRate \<noteq> 0
      then ucast (div128
             ((scast (tp_value timestamp) :: int128) * scast (numerator editRate)
                + 500000000 * scast (denominator editRate))
             (1000000000 * scast (denominator editRate)))
      else MXL_UNDEFINED_INDEX)"

text \<open>
  \<^verbatim>\<open>
  constexpr Timepoint indexToTimestamp(mxlRational const& editRate, std::uint64_t index) noexcept
  {
      // Validate the edit rate
      if ((editRate.denominator != 0) && (editRate.numerator != 0))
      {
          return Timepoint{static_cast<std::int64_t>(
              (index * __int128_t{editRate.denominator} * 1'000'000'000 + __int128_t{editRate.numerator} / 2) /
              __int128_t{editRate.numerator})};
      }
      return {};
  }
  \<close>
\<close>

definition indexToTimestamp :: "mxlRational \<Rightarrow> 64 word \<Rightarrow> Timepoint" where
  "indexToTimestamp editRate index =
     (if denominator editRate \<noteq> 0 \<and> numerator editRate \<noteq> 0
      then \<lparr>tp_value = ucast (div128
             ((ucast index :: int128) * scast (denominator editRate) * 1000000000
                + div128 (scast (numerator editRate)) 2)
             (scast (numerator editRate)))\<rparr>
      else \<lparr>tp_value = 0\<rparr>)"

subsection \<open>The conversion formulas of the specification\<close>

text \<open>
  The specification gives the two conversions as
  \<^verbatim>\<open>index = floor((t*num + 5*10^8*den) / (10^9*den))\<close> and
  \<^verbatim>\<open>t = floor((index*den*10^9 + num/2) / num)\<close>. The two definitions below are these
  formulas over the unbounded integers, with the flooring division of HOL; they are what
  the functions above are compared with.
\<close>

definition spec_index :: "mxlRational \<Rightarrow> Timepoint \<Rightarrow> int" where
  "spec_index r t =
     (sint (tp_value t) * sint (numerator r) + 5 * 10 ^ 8 * sint (denominator r))
       div (10 ^ 9 * sint (denominator r))"

definition spec_timestamp :: "mxlRational \<Rightarrow> 64 word \<Rightarrow> int" where
  "spec_timestamp r i =
     (uint i * sint (denominator r) * 10 ^ 9 + sint (numerator r) div 2)
       div sint (numerator r)"

text \<open>The edit rate of the round-trip scenario of the specification (NTSC, 30000/1001).\<close>

definition ntsc :: mxlRational where
  "ntsc = \<lparr>numerator = 30000, denominator = 1001\<rparr>"

text \<open>
  The bound of the round-trip property of the specification,
  \<open>\<lceil>10\<^sup>9 * den / (2 * num)\<rceil>\<close> nanoseconds.
\<close>

definition round_trip_bound :: "mxlRational \<Rightarrow> int" where
  "round_trip_bound r =
     \<lceil>10 ^ 9 * real_of_int (sint (denominator r)) / (2 * real_of_int (sint (numerator r)))\<rceil>"

section \<open>The flow synchronization group (FlowSynchronizationGroup.cpp)\<close>

text \<open>
  A synchronization group is a singly linked list (\<^verbatim>\<open>std::forward_list<ListEntry>\<close>) of
  entries, one per enrolled reader. An entry points to its reader with a plain
  \<^verbatim>\<open>FlowReader const*\<close>; in the model a reader is the address of its object, a natural
  number, and the list is a HOL list in the order of the linked list.
\<close>

datatype Variant = Discrete | Continuous

text \<open>
  Modelled from the spec: the enumeration \<^verbatim>\<open>mxlStatus\<close> is declared in \<^verbatim>\<open>mxl/mxl.h\<close>, which
  is not part of the sources at hand. The constructors are the status codes the
  specification lists; the group itself names only \<^verbatim>\<open>MXL_STATUS_OK\<close> and
  \<^verbatim>\<open>MXL_ERR_UNKNOWN\<close>.
\<close>

datatype mxlStatus =
    MXL_STATUS_OK
  | MXL_ERR_UNKNOWN
  | MXL_ERR_TIMEOUT
  | MXL_ERR_NOT_READY
  | MXL_ERR_STALE
  | MXL_ERR_UNDER_WRITE
  | MXL_ERR_INCOMPATIBLE
  | MXL_ERR_FLOW_BUSY
  | MXL_ERR_SCHEMA_MISMATCH
  | MXL_ERR_READER_GONE
  | MXL_ERR_NO_SUCH_FLOW
  | MXL_ERR_BAD_ARG
  | MXL_ERR_IO

text \<open>
  Modelled from the spec: the operators of \<^verbatim>\<open>Timepoint\<close> are declared in \<^verbatim>\<open>Timing.hpp\<close>,
  which is not part of the sources at hand. Timepoints are compared as signed 64-bit
  numbers of nanoseconds, and the difference of two timepoints is a duration whose
  \<^verbatim>\<open>value\<close> is the difference of theirs, taken in 64 bits.
\<close>

definition Timepoint_greater :: "Timepoint \<Rightarrow> Timepoint \<Rightarrow> bool" where
  "Timepoint_greater lhs rhs = (sint (tp_value rhs) < sint (tp_value lhs))"

definition Timepoint_minus :: "Timepoint \<Rightarrow> Timepoint \<Rightarrow> 64 word" where
  "Timepoint_minus lhs rhs = tp_value lhs - tp_value rhs"

text \<open>
  \<^verbatim>\<open>
  struct ListEntry
  {
      FlowReader const* reader;
      std::uint16_t minValidSlices;
      Variant variant;
      mxlRational grainRate;
      std::int64_t maxObservedSourceDelay;
  };
  \<close>
\<close>

record ListEntry =
  reader :: nat
  minValidSlices :: "16 word"
  variant :: Variant
  grainRate :: mxlRational
  maxObservedSourceDelay :: "64 word"

text \<open>
  The readers, their flows and the clock are outside the group. The group calls them
  through the interface below, over a state of the outside world of any type \<open>'w\<close>:
  \<^item> \<open>getFlowConfigInfo r\<close> is \<^verbatim>\<open>reader.getFlowConfigInfo().common.grainRate\<close>, fixed for
    the life of a reader;
  \<^item> \<open>readerAlive w r\<close> tells whether the object at address \<open>r\<close> still exists in \<open>w\<close>:
    calling a member function through a pointer to a destroyed object is undefined;
  \<^item> \<open>getFlowRuntimeInfo w r\<close> is the \<^verbatim>\<open>headIndex\<close> of the snapshot
    \<^verbatim>\<open>reader->getFlowRuntimeInfo()\<close>;
  \<^item> \<open>waitForGrain\<close> and \<open>waitForSamples\<close> are the blocking waits of the two kinds of
    reader, with their status;
  \<^item> \<open>currentTime w\<close> is \<^verbatim>\<open>currentTime(Clock::TAI)\<close>.
  Every call that takes time returns the state of the world after it.
\<close>

record 'w FlowReaders =
  getFlowConfigInfo :: "nat \<Rightarrow> mxlRational"
  readerAlive :: "'w \<Rightarrow> nat \<Rightarrow> bool"
  getFlowRuntimeInfo :: "'w \<Rightarrow> nat \<Rightarrow> 64 word \<times> 'w"
  waitForGrain :: "'w \<Rightarrow> nat \<Rightarrow> 64 word \<Rightarrow> 16 word \<Rightarrow> Timepoint \<Rightarrow> mxlStatus \<times> 'w"
  waitForSamples :: "'w \<Rightarrow> nat \<Rightarrow> 64 word \<Rightarrow> Timepoint \<Rightarrow> mxlStatus \<times> 'w"
  currentTime :: "'w \<Rightarrow> Timepoint \<times> 'w"

text \<open>
  The three constructors of \<^verbatim>\<open>ListEntry\<close>: the private one that the two public ones
  delegate to, which value-initialises \<^verbatim>\<open>minValidSlices\<close> and
  \<^verbatim>\<open>maxObservedSourceDelay\<close> and caches the grain rate of the flow, the one for a
  discrete reader and the one for a continuous reader.
\<close>

definition ListEntry_base :: "'w FlowReaders \<Rightarrow> nat \<Rightarrow> Variant \<Rightarrow> ListEntry" where
  "ListEntry_base env r v =
     \<lparr>reader = r, minValidSlices = 0, variant = v,
      grainRate = getFlowConfigInfo env r, maxObservedSourceDelay = 0\<rparr>"

definition ListEntry_discrete :: "'w FlowReaders \<Rightarrow> nat \<Rightarrow> 16 word \<Rightarrow> ListEntry" where
  "ListEntry_discrete env r m = (ListEntry_base env r Discrete)\<lparr>minValidSlices := m\<rparr>"

definition ListEntry_continuous :: "'w FlowReaders \<Rightarrow> nat \<Rightarrow> ListEntry" where
  "ListEntry_continuous env r = ListEntry_base env r Continuous"

text \<open>
  \<^verbatim>\<open>
  void FlowSynchronizationGroup::addReader(DiscreteFlowReader const& reader, std::uint16_t minValidSlices)
  {
      auto prev = _readers.before_begin();
      for (auto current = std::next(prev); current != _readers.end(); ++current)
      {
          if (current->reader == &reader)
          {
              current->minValidSlices = minValidSlices;
              return;
          }
          prev = current;
      }
      _readers.emplace_after(prev, reader, minValidSlices);
  }
  \<close>
  The overload for a continuous reader is the same loop without the assignment, and
  \<^verbatim>\<open>removeReader\<close> is the same loop with \<^verbatim>\<open>_readers.erase_after(prev)\<close> at the match and
  nothing after the loop.
\<close>

fun addReader_discrete :: "'w FlowReaders \<Rightarrow> ListEntry list \<Rightarrow> nat \<Rightarrow> 16 word \<Rightarrow> ListEntry list" where
  "addReader_discrete env [] r m = [ListEntry_discrete env r m]"
| "addReader_discrete env (current # rest) r m =
     (if reader current = r then current\<lparr>minValidSlices := m\<rparr> # rest
      else current # addReader_discrete env rest r m)"

fun addReader_continuous :: "'w FlowReaders \<Rightarrow> ListEntry list \<Rightarrow> nat \<Rightarrow> ListEntry list" where
  "addReader_continuous env [] r = [ListEntry_continuous env r]"
| "addReader_continuous env (current # rest) r =
     (if reader current = r then current # rest
      else current # addReader_continuous env rest r)"

fun removeReader :: "ListEntry list \<Rightarrow> nat \<Rightarrow> ListEntry list" where
  "removeReader [] r = []"
| "removeReader (current # rest) r =
     (if reader current = r then rest else current # removeReader rest r)"

text \<open>
  \<^verbatim>\<open>_readers.splice_after(_readers.before_begin(), _readers, it)\<close>, for \<^verbatim>\<open>it\<close> at position
  \<open>i\<close> of the list: \<^verbatim>\<open>std::forward_list::splice_after(pos, other, it)\<close> moves the element
  \<^emph>\<open>following\<close> \<^verbatim>\<open>it\<close> to the place after \<^verbatim>\<open>pos\<close>, and requires that element to exist.
  The definition is used only where \<open>Suc i < length xs\<close>.
\<close>

definition splice_after_before_begin :: "'a list \<Rightarrow> nat \<Rightarrow> 'a list" where
  "splice_after_before_begin xs i = xs ! Suc i # take (Suc i) xs @ drop (Suc (Suc i)) xs"

text \<open>
  \<^verbatim>\<open>
  mxlStatus FlowSynchronizationGroup::waitForDataAt(Timepoint originTime, Timepoint deadline) const
  {
      for (auto it = _readers.begin(); it != _readers.end(); /* Nothing */)
      {
          auto const current = it++;

          auto const expectedIndex = timestampToIndex(current->grainRate, originTime);
          auto const runtimeInfo = current->reader->getFlowRuntimeInfo();
          if (expectedIndex > runtimeInfo.headIndex)
          {
              auto result = mxlStatus{MXL_ERR_UNKNOWN};
              switch (current->variant)
              {
                  case Variant::Discrete:
                      result = static_cast<DiscreteFlowReader const*>(current->reader)
                                   ->waitForGrain(expectedIndex, current->minValidSlices, deadline);
                      break;
                  case Variant::Continuous:
                      result = static_cast<ContinuousFlowReader const*>(current->reader)
                                   ->waitForSamples(expectedIndex, deadline);
                      break;
              }

              if (result == MXL_STATUS_OK)
              {
                  auto const expectedArrivalTime = indexToTimestamp(current->grainRate, expectedIndex);
                  auto const currentTaiTime = currentTime(Clock::TAI);
                  if (currentTaiTime > expectedArrivalTime)
                  {
                      auto const sourceDelay = (currentTaiTime - expectedArrivalTime).value;
                      if (sourceDelay > current->maxObservedSourceDelay)
                      {
                          current->maxObservedSourceDelay = sourceDelay;
                          if (current->maxObservedSourceDelay > _readers.begin()->maxObservedSourceDelay)
                          {
                              _readers.splice_after(_readers.before_begin(), _readers, current);
                          }
                      }
                  }
              }
              else
              {
                  return result;
              }
          }
      }
      return MXL_STATUS_OK;
  }
  \<close>

  One pass through the body of the loop, for \<^verbatim>\<open>current\<close> at position \<open>i\<close>, has one of four
  results:
  \<^item> \<open>Advance w xs\<close>: the loop goes on with \<^verbatim>\<open>it\<close> at position \<open>i + 1\<close>;
  \<^item> \<open>Promoted w xs\<close>: \<^verbatim>\<open>splice_after\<close> has moved the successor of \<^verbatim>\<open>current\<close> to the front.
    The iterator \<^verbatim>\<open>it\<close> was advanced before, so it designates that very element, which
    is now the first of the list: the loop goes on at position 0;
  \<^item> \<open>Return status w\<close>: the function returns the status of a failed wait;
  \<^item> \<open>Undefined_step\<close>: the behaviour is undefined, because the reader of the entry has
    been destroyed, or because \<^verbatim>\<open>splice_after\<close> is called on the last entry.
\<close>

datatype 'w step =
    Advance 'w "ListEntry list"
  | Promoted 'w "ListEntry list"
  | Return mxlStatus 'w
  | Undefined_step

definition waitOnReader ::
  "'w FlowReaders \<Rightarrow> 'w \<Rightarrow> ListEntry \<Rightarrow> 64 word \<Rightarrow> Timepoint \<Rightarrow> mxlStatus \<times> 'w" where
  "waitOnReader env w current expectedIndex deadline =
     (case variant current of
        Discrete \<Rightarrow>
          waitForGrain env w (reader current) expectedIndex (minValidSlices current) deadline
      | Continuous \<Rightarrow>
          waitForSamples env w (reader current) expectedIndex deadline)"

definition observeSourceDelay ::
  "'w \<Rightarrow> ListEntry list \<Rightarrow> nat \<Rightarrow> Timepoint \<Rightarrow> Timepoint \<Rightarrow> 'w step" where
  "observeSourceDelay w xs i expectedArrivalTime currentTaiTime =
     (if Timepoint_greater currentTaiTime expectedArrivalTime
      then
        let sourceDelay = Timepoint_minus currentTaiTime expectedArrivalTime in
        if sint (maxObservedSourceDelay (xs ! i)) < sint sourceDelay
        then
          let xs' = xs[i := (xs ! i)\<lparr>maxObservedSourceDelay := sourceDelay\<rparr>] in
          if sint (maxObservedSourceDelay (xs' ! 0)) < sint (maxObservedSourceDelay (xs' ! i))
          then (if Suc i < length xs' then Promoted w (splice_after_before_begin xs' i)
                else Undefined_step)
          else Advance w xs'
        else Advance w xs
      else Advance w xs)"

definition visit ::
  "'w FlowReaders \<Rightarrow> Timepoint \<Rightarrow> Timepoint \<Rightarrow> 'w \<Rightarrow> ListEntry list \<Rightarrow> nat \<Rightarrow> 'w step" where
  "visit env originTime deadline w xs i =
     (let current = xs ! i;
          expectedIndex = timestampToIndex (grainRate current) originTime
      in if \<not> readerAlive env w (reader current) then Undefined_step
         else
           let (headIndex, w1) = getFlowRuntimeInfo env w (reader current)
           in if headIndex < expectedIndex
              then
                if \<not> readerAlive env w1 (reader current) then Undefined_step
                else
                  let (result, w2) = waitOnReader env w1 current expectedIndex deadline
                  in if result = MXL_STATUS_OK
                     then
                       let expectedArrivalTime = indexToTimestamp (grainRate current) expectedIndex;
                           (currentTaiTime, w3) = currentTime env w2
                       in observeSourceDelay w3 xs i expectedArrivalTime currentTaiTime
                     else Return result w2
              else Advance w1 xs)"

text \<open>
  The result of a call: a status with the state of the world and the list after the call,
  or undefined behaviour.
\<close>

datatype 'w outcome = Returned mxlStatus 'w "ListEntry list" | Undefined

subsection \<open>The loop terminates\<close>

text \<open>
  A promotion restarts the loop at the front of the list, so that the loop is not a single
  pass. It still terminates: a promotion is made only after some entry's
  \<^verbatim>\<open>maxObservedSourceDelay\<close> has strictly grown, and these are bounded by \<open>2\<^sup>6\<^sup>3\<close>. The
  measure is the total room left for growth, then the number of entries still ahead.
\<close>

definition slack :: "ListEntry list \<Rightarrow> nat" where
  "slack xs = (\<Sum>e\<leftarrow>xs. nat (2 ^ 63 - sint (maxObservedSourceDelay e)))"

lemma slack_update_less:
  assumes "i < length xs" "sint (maxObservedSourceDelay (xs ! i)) < sint d"
  shows "slack (xs[i := (xs ! i)\<lparr>maxObservedSourceDelay := d\<rparr>]) < slack xs"
proof -
  let ?f = "\<lambda>e. nat (2 ^ 63 - sint (maxObservedSourceDelay e))"
  have xs: "xs = take i xs @ xs ! i # drop (Suc i) xs"
    using assms(1) by (rule id_take_nth_drop)
  have up: "xs[i := (xs ! i)\<lparr>maxObservedSourceDelay := d\<rparr>]
          = take i xs @ (xs ! i)\<lparr>maxObservedSourceDelay := d\<rparr> # drop (Suc i) xs"
    using assms(1) by (rule upd_conv_take_nth_drop)
  have "sint d < 2 ^ 63" using sint_lt [of d] by simp
  with assms(2) have "?f ((xs ! i)\<lparr>maxObservedSourceDelay := d\<rparr>) < ?f (xs ! i)" by simp
  then have "slack (take i xs @ (xs ! i)\<lparr>maxObservedSourceDelay := d\<rparr> # drop (Suc i) xs)
           < slack (take i xs @ xs ! i # drop (Suc i) xs)"
    unfolding slack_def by simp
  then show ?thesis using xs up by simp
qed

lemma slack_splice:
  assumes "Suc i < length xs"
  shows "slack (splice_after_before_begin xs i) = slack xs"
proof -
  have "xs = take (Suc i) xs @ xs ! Suc i # drop (Suc (Suc i)) xs"
    using assms by (rule id_take_nth_drop)
  then have "slack xs = slack (take (Suc i) xs @ xs ! Suc i # drop (Suc (Suc i)) xs)" by simp
  also have "\<dots> = slack (splice_after_before_begin xs i)"
    unfolding slack_def splice_after_before_begin_def by simp
  finally show ?thesis by simp
qed

lemma observeSourceDelay_Advance:
  assumes "observeSourceDelay w xs i a c = Advance w' xs'" "i < length xs"
  shows "length xs' = length xs \<and> slack xs' \<le> slack xs"
  using assms slack_update_less [of i xs "Timepoint_minus c a"]
  by (auto simp: observeSourceDelay_def Let_def split: if_splits)

lemma observeSourceDelay_Promoted:
  assumes "observeSourceDelay w xs i a c = Promoted w' xs'" "i < length xs"
  shows "slack xs' < slack xs"
  using assms slack_update_less [of i xs "Timepoint_minus c a"]
  by (auto simp: observeSourceDelay_def Let_def slack_splice split: if_splits)

lemma visit_Advance:
  assumes "visit env ot dl w xs i = Advance w' xs'" "i < length xs"
  shows "length xs' = length xs \<and> slack xs' \<le> slack xs"
  using assms
  by (auto simp: visit_def Let_def split: if_splits prod.splits dest: observeSourceDelay_Advance)

lemma visit_Promoted:
  assumes "visit env ot dl w xs i = Promoted w' xs'" "i < length xs"
  shows "slack xs' < slack xs"
  using assms
  by (auto simp: visit_def Let_def split: if_splits prod.splits dest: observeSourceDelay_Promoted)

function waitLoop ::
  "'w FlowReaders \<Rightarrow> Timepoint \<Rightarrow> Timepoint \<Rightarrow> 'w \<Rightarrow> ListEntry list \<Rightarrow> nat \<Rightarrow> 'w outcome" where
  "waitLoop env originTime deadline w xs i =
     (if i < length xs
      then
        (case visit env originTime deadline w xs i of
           Advance w' xs' \<Rightarrow> waitLoop env originTime deadline w' xs' (Suc i)
         | Promoted w' xs' \<Rightarrow> waitLoop env originTime deadline w' xs' 0
         | Return result w' \<Rightarrow> Returned result w' xs
         | Undefined_step \<Rightarrow> Undefined)
      else Returned MXL_STATUS_OK w xs)"
  by pat_completeness auto
termination
proof (relation "measures [\<lambda>(env, ot, dl, w, xs, i). slack xs, \<lambda>(env, ot, dl, w, xs, i). length xs - i]")
  show "wf (measures [\<lambda>(env :: 'w FlowReaders, ot :: Timepoint, dl :: Timepoint, w :: 'w, xs, i :: nat). slack xs,
                      \<lambda>(env, ot, dl, w, xs, i). length xs - i])"
    by simp
next
  fix env :: "'w FlowReaders" and originTime deadline w xs i w' xs'
  assume "i < length xs" "visit env originTime deadline w xs i = Advance w' xs'"
  from visit_Advance [OF this(2,1)]
  show "((env, originTime, deadline, w', xs', Suc i), (env, originTime, deadline, w, xs, i))
          \<in> measures [\<lambda>(env, ot, dl, w, xs, i). slack xs, \<lambda>(env, ot, dl, w, xs, i). length xs - i]"
    using \<open>i < length xs\<close> by auto
next
  fix env :: "'w FlowReaders" and originTime deadline w xs i w' xs'
  assume "i < length xs" "visit env originTime deadline w xs i = Promoted w' xs'"
  from visit_Promoted [OF this(2,1)]
  show "((env, originTime, deadline, w', xs', 0), (env, originTime, deadline, w, xs, i))
          \<in> measures [\<lambda>(env, ot, dl, w, xs, i). slack xs, \<lambda>(env, ot, dl, w, xs, i). length xs - i]"
    by auto
qed

declare waitLoop.simps [simp del]

definition waitForDataAt ::
  "'w FlowReaders \<Rightarrow> 'w \<Rightarrow> ListEntry list \<Rightarrow> Timepoint \<Rightarrow> Timepoint \<Rightarrow> 'w outcome" where
  "waitForDataAt env w readers originTime deadline = waitLoop env originTime deadline w readers 0"

subsection \<open>A simulated set of readers\<close>

text \<open>
  For running the group on concrete scenarios: readers of flows with 25 grains per second,
  whose head indices are kept in a list indexed by the address of the reader. A wait takes
  50 ms and succeeds with the awaited index as the head index if it ends by the deadline,
  and times out otherwise. The world also records which readers are destroyed and, in
  order, the readers whose runtime info has been read.
\<close>

record sim =
  sim_head :: "64 word list"
  sim_now :: "64 word"
  sim_gone :: "nat list"
  sim_seen :: "nat list"

definition sim_wait :: "sim \<Rightarrow> nat \<Rightarrow> 64 word \<Rightarrow> Timepoint \<Rightarrow> mxlStatus \<times> sim" where
  "sim_wait w r index deadline =
     (if sint (sim_now w) + 50000000 \<le> sint (tp_value deadline)
      then (MXL_STATUS_OK, w\<lparr>sim_head := (sim_head w)[r := index], sim_now := sim_now w + 50000000\<rparr>)
      else (MXL_ERR_TIMEOUT, w\<lparr>sim_now := tp_value deadline\<rparr>))"

definition sim_env :: "sim FlowReaders" where
  "sim_env =
     \<lparr>getFlowConfigInfo = (\<lambda>r. \<lparr>numerator = 25, denominator = 1\<rparr>),
      readerAlive = (\<lambda>w r. r \<notin> set (sim_gone w)),
      getFlowRuntimeInfo = (\<lambda>w r. (sim_head w ! r, w\<lparr>sim_seen := sim_seen w @ [r]\<rparr>)),
      waitForGrain = (\<lambda>w r index m deadline. sim_wait w r index deadline),
      waitForSamples = (\<lambda>w r index deadline. sim_wait w r index deadline),
      currentTime = (\<lambda>w. (\<lparr>tp_value = sim_now w\<rparr>, w))\<rparr>"

text \<open>
  Four seconds after the epoch the grain of index 100 is due. Reader 2 is one grain behind,
  the other readers have the grain.
\<close>

definition sim_start :: sim where
  "sim_start =
     \<lparr>sim_head = [100, 100, 99, 100], sim_now = 4000000000,
      sim_gone = [], sim_seen = []\<rparr>"

definition three_readers :: "ListEntry list" where
  "three_readers =
     addReader_discrete sim_env
       (addReader_discrete sim_env (addReader_discrete sim_env [] 1 1) 2 1) 3 1"

subsection \<open>Sequences of operations\<close>

text \<open>
  The operations on a group, and a group taken through a sequence of them. A call of
  \<open>waitForDataAt\<close> comes with the state of the world it is made in; a run ends with \<open>None\<close>
  when a call has undefined behaviour.
\<close>

datatype 'w operation =
    AddDiscrete nat "16 word"
  | AddContinuous nat
  | Remove nat
  | WaitForDataAt 'w Timepoint Timepoint

fun perform :: "'w FlowReaders \<Rightarrow> ListEntry list \<Rightarrow> 'w operation \<Rightarrow> ListEntry list option" where
  "perform env xs (AddDiscrete r m) = Some (addReader_discrete env xs r m)"
| "perform env xs (AddContinuous r) = Some (addReader_continuous env xs r)"
| "perform env xs (Remove r) = Some (removeReader xs r)"
| "perform env xs (WaitForDataAt w originTime deadline) =
     (case waitForDataAt env w xs originTime deadline of
        Returned status w' xs' \<Rightarrow> Some xs'
      | Undefined \<Rightarrow> None)"

fun run :: "'w FlowReaders \<Rightarrow> ListEntry list \<Rightarrow> 'w operation list \<Rightarrow> ListEntry list option" where
  "run env xs [] = Some xs"
| "run env xs (c # cs) = (case perform env xs c of None \<Rightarrow> None | Some xs' \<Rightarrow> run env xs' cs)"

text \<open>
  Scenarios on the simulated readers: a group of readers 1 and 2, and the enrollment of the
  three readers followed by a wait for the grain due at four seconds, with the group the
  wait leaves behind.
\<close>

definition two_readers :: "ListEntry list" where
  "two_readers = addReader_discrete sim_env (addReader_discrete sim_env [] 1 1) 2 1"

definition enroll_and_wait :: "sim operation list" where
  "enroll_and_wait =
     [AddDiscrete 1 1, AddDiscrete 2 1, AddDiscrete 3 1,
      WaitForDataAt sim_start \<lparr>tp_value = 4000000000\<rparr> \<lparr>tp_value = 4100000000\<rparr>]"

definition after_wait :: "ListEntry list" where
  "after_wait =
     [\<lparr>reader = 3, minValidSlices = 1, variant = Discrete,
        grainRate = \<lparr>numerator = 25, denominator = 1\<rparr>, maxObservedSourceDelay = 0\<rparr>,
      \<lparr>reader = 1, minValidSlices = 1, variant = Discrete,
        grainRate = \<lparr>numerator = 25, denominator = 1\<rparr>, maxObservedSourceDelay = 0\<rparr>,
      \<lparr>reader = 2, minValidSlices = 1, variant = Discrete,
        grainRate = \<lparr>numerator = 25, denominator = 1\<rparr>, maxObservedSourceDelay = 50000000\<rparr>]"

subsection \<open>Properties of the observed delays\<close>

text \<open>
  \<open>raised xs i d\<close> is the list after the assignment
  \<^verbatim>\<open>current->maxObservedSourceDelay = sourceDelay\<close> at position \<open>i\<close>. The three predicates
  say that no entry has a negative delay, that every entry of the first list is still
  enrolled in the second with a delay at least as large, and that every entry of the
  second list has the delay its reader had in the first, or is new with delay zero.
\<close>

definition raised :: "ListEntry list \<Rightarrow> nat \<Rightarrow> 64 word \<Rightarrow> ListEntry list" where
  "raised xs i d = xs[i := (xs ! i)\<lparr>maxObservedSourceDelay := d\<rparr>]"

definition delays_nonneg :: "ListEntry list \<Rightarrow> bool" where
  "delays_nonneg xs \<longleftrightarrow> (\<forall>e\<in>set xs. 0 \<le> sint (maxObservedSourceDelay e))"

definition delay_kept :: "ListEntry list \<Rightarrow> ListEntry list \<Rightarrow> bool" where
  "delay_kept xs xs' \<longleftrightarrow>
     (\<forall>e\<in>set xs. \<exists>e'\<in>set xs'. reader e' = reader e
        \<and> sint (maxObservedSourceDelay e) \<le> sint (maxObservedSourceDelay e'))"

definition delay_untouched :: "ListEntry list \<Rightarrow> ListEntry list \<Rightarrow> bool" where
  "delay_untouched xs xs' \<longleftrightarrow>
     (\<forall>e'\<in>set xs'.
        (\<exists>e\<in>set xs. reader e = reader e' \<and> maxObservedSourceDelay e' = maxObservedSourceDelay e)
        \<or> (reader e' \<notin> reader ` set xs \<and> maxObservedSourceDelay e' = 0))"

section \<open>The index conversion, verified\<close>

subsection \<open>The conversions as integer arithmetic\<close>

lemma sint64_abs: "\<bar>sint (x :: 64 word)\<bar> \<le> 2 ^ 63"
  using sint_ge [of x] sint_lt [of x] by simp

lemma abs_mult_le:
  fixes a b :: int
  assumes "\<bar>a\<bar> \<le> A" "\<bar>b\<bar> \<le> B"
  shows "\<bar>a * b\<bar> \<le> A * B"
proof -
  have "\<bar>a * b\<bar> = \<bar>a\<bar> * \<bar>b\<bar>" by (simp add: abs_mult)
  also have "\<dots> \<le> A * B" using assms by (intro mult_mono) auto
  finally show ?thesis .
qed

lemma sint128_self: "\<bar>k\<bar> < 2 ^ 127 \<Longrightarrow> sint (word_of_int k :: int128) = k"
  by (simp add: sint_sbintrunc' signed_take_bit_int_eq_self)

lemma word_of_sint_64_128: "(word_of_int (sint (x :: 64 word)) :: int128) = scast x"
  by (simp only: scast_eq)

lemma word_of_uint_64_128: "(word_of_int (uint (x :: 64 word)) :: int128) = ucast x"
  by (simp only: ucast_eq)

lemma wide_numerator:
  "(scast (t :: 64 word) :: int128) * scast (n :: 64 word) + 500000000 * scast (d :: 64 word)
     = word_of_int (sint t * sint n + 500000000 * sint d)"
  by (simp only: of_int_add of_int_mult of_int_numeral word_of_sint_64_128)

lemma wide_numerator_bound:
  "\<bar>sint (t :: 64 word) * sint (n :: 64 word) + 500000000 * sint (d :: 64 word)\<bar> < 2 ^ 127"
proof -
  have "\<bar>sint t * sint n\<bar> \<le> 2 ^ 63 * 2 ^ 63"
    by (rule abs_mult_le) (rule sint64_abs)+
  moreover have "\<bar>500000000 * sint d\<bar> \<le> 500000000 * 2 ^ 63"
    by (rule abs_mult_le) (simp, rule sint64_abs)
  ultimately show ?thesis by simp
qed

lemma wide_denominator:
  "1000000000 * (scast (d :: 64 word) :: int128) = word_of_int (1000000000 * sint d)"
  by (simp only: of_int_mult of_int_numeral word_of_sint_64_128)

lemma wide_denominator_bound: "\<bar>1000000000 * sint (d :: 64 word)\<bar> < 2 ^ 127"
proof -
  have "\<bar>1000000000 * sint d\<bar> \<le> 1000000000 * 2 ^ 63"
    by (rule abs_mult_le) (simp, rule sint64_abs)
  then show ?thesis by simp
qed

lemma narrow_128_64: "(ucast (word_of_int k :: int128) :: 64 word) = word_of_int k"
  by (rule ucast_down_wi) (simp add: is_down)

text \<open>
  No intermediate value of \<open>timestampToIndex\<close> leaves the signed 128-bit range, so the
  function is the truncated quotient of the exact integers, reduced modulo \<open>2\<^sup>6\<^sup>4\<close>.
\<close>

lemma timestampToIndex_int:
  assumes "denominator r \<noteq> 0" "numerator r \<noteq> 0"
  shows "timestampToIndex r t =
    word_of_int ((sint (tp_value t) * sint (numerator r) + 500000000 * sint (denominator r))
                   sdiv (1000000000 * sint (denominator r)))"
  using assms
  by (simp only: timestampToIndex_def div128_def wide_numerator wide_denominator
        sint128_self [OF wide_numerator_bound] sint128_self [OF wide_denominator_bound]
        narrow_128_64 simp_thms if_True)

lemma half_numerator:
  "div128 (scast (n :: 64 word)) 2 = word_of_int (sint n sdiv 2)"
proof -
  have "sint (scast n :: int128) = sint n"
    by (rule sint_up_scast) (simp add: is_up)
  moreover have "sint (2 :: int128) = 2" by simp
  ultimately show ?thesis by (simp only: div128_def)
qed

text \<open>
  The product \<^verbatim>\<open>index * den * 1'000'000'000\<close> of \<open>indexToTimestamp\<close> can leave the signed
  128-bit range (the index alone has 64 bits); where it does not, the function is again
  the truncated quotient of the exact integers, reduced to 64 bits.
\<close>

lemma indexToTimestamp_int:
  assumes "denominator r \<noteq> 0" "numerator r \<noteq> 0"
    and "\<bar>uint i * sint (denominator r) * 1000000000 + sint (numerator r) sdiv 2\<bar> < 2 ^ 127"
  shows "tp_value (indexToTimestamp r i) =
    word_of_int ((uint i * sint (denominator r) * 1000000000 + sint (numerator r) sdiv 2)
                   sdiv sint (numerator r))"
proof -
  have num: "(ucast i :: int128) * scast (denominator r) * 1000000000
                + div128 (scast (numerator r)) 2
             = word_of_int (uint i * sint (denominator r) * 1000000000 + sint (numerator r) sdiv 2)"
    by (simp only: half_numerator of_int_add of_int_mult of_int_numeral
          word_of_sint_64_128 word_of_uint_64_128)
  have den: "sint (scast (numerator r) :: int128) = sint (numerator r)"
    by (rule sint_up_scast) (simp add: is_up)
  show ?thesis
    using assms(1,2)
    by (simp only: indexToTimestamp_def num div128_def [of "word_of_int _"] den
          sint128_self [OF assms(3)] narrow_128_64 simp_thms if_True Timepoint.simps)
qed

lemma sdiv_eq_div_nonneg:
  fixes a b :: int
  assumes "0 \<le> a" "0 < b"
  shows "a sdiv b = a div b"
  using assms by (simp add: signed_divide_int_def sgn_if)

lemma int_div_bounds:
  fixes a b :: int
  assumes "0 < b"
  shows "b * (a div b) \<le> a" and "a < b * (a div b) + b"
proof -
  have "a = b * (a div b) + a mod b" by simp
  moreover have "0 \<le> a mod b" "a mod b < b" using assms by simp_all
  ultimately show "b * (a div b) \<le> a" and "a < b * (a div b) + b" by linarith+
qed

lemma int_div_unique:
  fixes a b q :: int
  assumes "0 < b" "b * q \<le> a" "a < b * q + b"
  shows "a div b = q"
  using assms by (intro int_div_pos_eq [where r = "a - b * q"]) auto

lemma uint64_of_int: "0 \<le> k \<Longrightarrow> k < 2 ^ 64 \<Longrightarrow> uint (word_of_int k :: 64 word) = k"
  by (simp add: uint_word_of_int)

lemma sint64_of_int: "- (2 ^ 63) \<le> k \<Longrightarrow> k < 2 ^ 63 \<Longrightarrow> sint (word_of_int k :: 64 word) = k"
  by (simp add: sint_sbintrunc' signed_take_bit_int_eq_self)

text \<open>
  Truncation and flooring agree on a non-negative dividend and a positive divisor, so at a
  positive edit rate both functions follow the formulas of the specification there.
\<close>

lemma timestampToIndex_floor:
  assumes "numerator r \<noteq> 0" "0 < sint (denominator r)"
    and "0 \<le> sint (tp_value t) * sint (numerator r) + 500000000 * sint (denominator r)"
  shows "timestampToIndex r t = word_of_int (spec_index r t)"
proof -
  have d: "denominator r \<noteq> 0" using assms(2) by auto
  show ?thesis
    using assms by (simp add: timestampToIndex_int [OF d assms(1)] spec_index_def sdiv_eq_div_nonneg)
qed

lemma spec_index_nonneg:
  assumes "0 < sint (denominator r)"
    and "0 \<le> sint (tp_value t) * sint (numerator r) + 500000000 * sint (denominator r)"
  shows "0 \<le> spec_index r t"
  using assms by (simp add: spec_index_def pos_imp_zdiv_nonneg_iff)

lemma indexToTimestamp_floor:
  assumes "0 < sint (numerator r)" "0 < sint (denominator r)"
    and "uint i * sint (denominator r) * 1000000000 + sint (numerator r) div 2 < 2 ^ 127"
  shows "tp_value (indexToTimestamp r i) = word_of_int (spec_timestamp r i)"
proof -
  have nz: "denominator r \<noteq> 0" "numerator r \<noteq> 0" using assms(1,2) by auto
  have h: "sint (numerator r) sdiv 2 = sint (numerator r) div 2"
    using assms(1) by (simp add: sdiv_eq_div_nonneg)
  have "0 \<le> uint i * sint (denominator r)" using assms(2) by simp
  then have p: "0 \<le> uint i * sint (denominator r) * 1000000000" by simp
  have "0 \<le> sint (numerator r) div 2" using assms(1) by simp
  with p have nn: "0 \<le> uint i * sint (denominator r) * 1000000000 + sint (numerator r) div 2"
    by linarith
  with assms(3) have "\<bar>uint i * sint (denominator r) * 1000000000 + sint (numerator r) sdiv 2\<bar> < 2 ^ 127"
    unfolding h by linarith
  from indexToTimestamp_int [OF nz this] show ?thesis
    using nn assms(1) unfolding h by (simp add: spec_timestamp_def sdiv_eq_div_nonneg)
qed

lemma spec_timestamp_nonneg:
  assumes "0 < sint (numerator r)" "0 < sint (denominator r)"
  shows "0 \<le> spec_timestamp r i"
proof -
  have "0 \<le> uint i * sint (denominator r)" using assms(2) by simp
  then have p: "0 \<le> uint i * sint (denominator r) * 1000000000" by simp
  have "0 \<le> sint (numerator r) div 2" using assms(1) by simp
  with p have nn: "0 \<le> uint i * sint (denominator r) * 1000000000 + sint (numerator r) div 2"
    by linarith
  then show ?thesis using assms(1) by (simp add: spec_timestamp_def pos_imp_zdiv_nonneg_iff)
qed

lemma round_trip_bound_int:
  "round_trip_bound r = - ((- (10 ^ 9 * sint (denominator r))) div (2 * sint (numerator r)))"
proof -
  have "10 ^ 9 * real_of_int (sint (denominator r)) / (2 * real_of_int (sint (numerator r)))
      = real_of_int (10 ^ 9 * sint (denominator r)) / real_of_int (2 * sint (numerator r))"
    by simp
  then show ?thesis
    unfolding round_trip_bound_def by (simp only: ceiling_divide_eq_div)
qed

lemma round_trip_bound_ge:
  assumes "0 < sint (numerator r)"
  shows "10 ^ 9 * sint (denominator r) \<le> 2 * sint (numerator r) * round_trip_bound r"
proof -
  have "0 < 2 * sint (numerator r)" using assms by simp
  from int_div_bounds(1) [OF this, of "- (10 ^ 9 * sint (denominator r))"]
  show ?thesis unfolding round_trip_bound_int by simp
qed

text \<open>The pure integer fact behind the round trip.\<close>

lemma round_trip_int:
  fixes T N D q ts c :: int
  assumes N: "0 < N" and D: "0 < D"
    and q: "q = (T * N + 500000000 * D) div (1000000000 * D)"
    and ts: "ts = (q * D * 1000000000 + N div 2) div N"
    and c: "1000000000 * D \<le> 2 * N * c"
  shows "\<bar>ts - T\<bar> \<le> c"
proof -
  have B: "0 < 1000000000 * D" using D by simp
  from int_div_bounds [OF B, of "T * N + 500000000 * D"]
  have q1: "1000000000 * D * q \<le> T * N + 500000000 * D"
    and q2: "T * N + 500000000 * D < 1000000000 * D * q + 1000000000 * D"
    unfolding q by simp_all
  from int_div_bounds [OF N, of "q * D * 1000000000 + N div 2"]
  have t1: "N * ts \<le> q * D * 1000000000 + N div 2"
    and t2: "q * D * 1000000000 + N div 2 < N * ts + N"
    unfolding ts by simp_all
  define P where "P = q * D * 1000000000"
  define h where "h = N div 2"
  define x where "x = T * N"
  define y where "y = N * ts"
  have e: "1000000000 * D * q = P" by (simp add: P_def)
  have h1: "2 * h \<le> N" "N \<le> 2 * h + 1" unfolding h_def by presburger+
  have up: "2 * (y - x) \<le> N + 1000000000 * D"
    using q1 t1 h1 unfolding e P_def [symmetric] h_def [symmetric] x_def [symmetric] y_def [symmetric]
    by presburger
  have lo: "2 * (x - y) \<le> N + 1000000000 * D"
    using q2 t2 h1 unfolding e P_def [symmetric] h_def [symmetric] x_def [symmetric] y_def [symmetric]
    by presburger
  have cN: "0 \<le> c"
  proof (rule ccontr)
    assume "\<not> 0 \<le> c"
    then have "c \<le> - 1" by simp
    then have "2 * N * c \<le> 2 * N * (- 1)" using N by (intro mult_left_mono) auto
    with c B N show False by simp
  qed
  show ?thesis
  proof (rule ccontr)
    assume "\<not> \<bar>ts - T\<bar> \<le> c"
    then consider "c + 1 \<le> ts - T" | "c + 1 \<le> T - ts" by linarith
    then show False
    proof cases
      case 1
      then have "N * (c + 1) \<le> N * (ts - T)" using N by (intro mult_left_mono) auto
      then have "2 * N * c + 2 * N \<le> 2 * (y - x)" by (simp add: algebra_simps x_def y_def)
      with up c N show False by linarith
    next
      case 2
      then have "N * (c + 1) \<le> N * (T - ts)" using N by (intro mult_left_mono) auto
      then have "2 * N * c + 2 * N \<le> 2 * (x - y)" by (simp add: algebra_simps x_def y_def)
      with lo c N show False by linarith
    qed
  qed
qed

lemma wide_numerator_le:
  "sint (t :: 64 word) * sint (n :: 64 word) + 500000000 * sint (d :: 64 word)
     \<le> 2 ^ 126 + 500000000 * 2 ^ 63"
proof -
  have "\<bar>sint t * sint n\<bar> \<le> 2 ^ 63 * 2 ^ 63"
    by (rule abs_mult_le) (rule sint64_abs)+
  moreover have "\<bar>500000000 * sint d\<bar> \<le> 500000000 * 2 ^ 63"
    by (rule abs_mult_le) (simp, rule sint64_abs)
  ultimately show ?thesis by simp
qed

lemma uint_timestampToIndex_floor:
  assumes "0 < sint (numerator r)" "0 < sint (denominator r)"
    and "0 \<le> sint (tp_value t) * sint (numerator r) + 500000000 * sint (denominator r)"
    and "spec_index r t < 2 ^ 64"
  shows "uint (timestampToIndex r t) = spec_index r t"
proof -
  have "numerator r \<noteq> 0" using assms(1) by auto
  from timestampToIndex_floor [OF this assms(2,3)] spec_index_nonneg [OF assms(2,3)] assms(4)
  show ?thesis by (simp only: uint64_of_int)
qed

lemma sint_indexToTimestamp_floor:
  assumes "0 < sint (numerator r)" "0 < sint (denominator r)"
    and "uint i * sint (denominator r) * 1000000000 + sint (numerator r) div 2 < 2 ^ 127"
    and "spec_timestamp r i < 2 ^ 63"
  shows "sint (tp_value (indexToTimestamp r i)) = spec_timestamp r i"
proof -
  have "- (2 ^ 63) \<le> spec_timestamp r i"
    using spec_timestamp_nonneg [OF assms(1,2), of i] by simp
  with indexToTimestamp_floor [OF assms(1,2,3)] assms(4)
  show ?thesis by (simp only: sint64_of_int)
qed

lemma round_trip_no_overflow:
  assumes N: "0 < sint (numerator r)" and D: "0 < sint (denominator r)"
    and nn: "0 \<le> sint (tp_value t) * sint (numerator r) + 500000000 * sint (denominator r)"
  shows "spec_index r t * sint (denominator r) * 1000000000 + sint (numerator r) div 2 < 2 ^ 127"
proof -
  have B: "0 < 1000000000 * sint (denominator r)" using D by simp
  from int_div_bounds(1) [OF B, of "sint (tp_value t) * sint (numerator r) + 500000000 * sint (denominator r)"]
  have "1000000000 * sint (denominator r) * spec_index r t
          \<le> sint (tp_value t) * sint (numerator r) + 500000000 * sint (denominator r)"
    by (simp add: spec_index_def)
  also note wide_numerator_le
  finally have "spec_index r t * sint (denominator r) * 1000000000 \<le> 2 ^ 126 + 500000000 * 2 ^ 63"
    by (simp add: mult.commute mult.left_commute)
  moreover have "sint (numerator r) div 2 < 2 ^ 62"
    using sint_lt [of "numerator r"] by simp
  ultimately show ?thesis by simp
qed

lemma ntsc_fields: "numerator ntsc = 30000" "denominator ntsc = 1001"
  by (simp_all add: ntsc_def)

lemma ntsc_index_of_second: "timestampToIndex ntsc \<lparr>tp_value = 1000000000\<rparr> = 30"
  by (simp add: timestampToIndex_int ntsc_fields sdiv_eq_div_nonneg)

subsection \<open>Invalid edit rates\<close>

text \<open>
  Claim C3. For every edit rate in which the numerator or the denominator is zero, and for
  every timestamp and every index, \<open>timestampToIndex\<close> returns \<open>MXL_UNDEFINED_INDEX\<close>, which
  is \<open>2\<^sup>6\<^sup>4 - 1\<close>, and \<open>indexToTimestamp\<close> returns the zero timepoint.
\<close>

theorem zero_rate_conversions:
  assumes "numerator r = 0 \<or> denominator r = 0"
  shows "timestampToIndex r t = MXL_UNDEFINED_INDEX
    \<and> uint MXL_UNDEFINED_INDEX = 2 ^ 64 - 1
    \<and> indexToTimestamp r i = \<lparr>tp_value = 0\<rparr>"
  using assms by (auto simp: timestampToIndex_def indexToTimestamp_def MXL_UNDEFINED_INDEX_def)

theorem zero_rate_conversions_witness:
  "timestampToIndex \<lparr>numerator = 0, denominator = 1001\<rparr> \<lparr>tp_value = 1000000000\<rparr>
     = MXL_UNDEFINED_INDEX
   \<and> uint MXL_UNDEFINED_INDEX = 18446744073709551615
   \<and> indexToTimestamp \<lparr>numerator = 30000, denominator = 0\<rparr> 30 = \<lparr>tp_value = 0\<rparr>"
  using zero_rate_conversions [of "\<lparr>numerator = 0, denominator = 1001\<rparr>"
      "\<lparr>tp_value = 1000000000\<rparr>" 30]
    zero_rate_conversions [of "\<lparr>numerator = 30000, denominator = 0\<rparr>"
      "\<lparr>tp_value = 1000000000\<rparr>" 30]
  by simp

subsection \<open>The functions against the formulas\<close>

text \<open>
  Claim C2, as amended. For every edit rate whose numerator and denominator are both
  nonzero, \<open>timestampToIndex\<close> is the quotient of \<open>t*num + 5*10\<^sup>8*den\<close> by \<open>10\<^sup>9*den\<close>
  rounded towards zero, computed without overflow in 128 bits and reduced modulo \<open>2\<^sup>6\<^sup>4\<close>.
  For a positive denominator and a non-negative dividend (every \<open>t \<ge> 0\<close> at a positive
  rate) this is the floor formula, as a number when the floor is below \<open>2\<^sup>6\<^sup>4\<close>. For a
  positive numerator and denominator and a dividend \<open>index*den*10\<^sup>9 + num/2\<close> below \<open>2\<^sup>1\<^sup>2\<^sup>7\<close>,
  \<open>indexToTimestamp\<close> is the floor formula reduced to 64 bits, as a number when the floor
  is below \<open>2\<^sup>6\<^sup>3\<close>.
\<close>

theorem conversions_exact_quotients:
  assumes "numerator r \<noteq> 0" and "denominator r \<noteq> 0"
  shows "timestampToIndex r t =
           word_of_int ((sint (tp_value t) * sint (numerator r) + 500000000 * sint (denominator r))
                          sdiv (1000000000 * sint (denominator r)))
    \<and> (0 < sint (denominator r)
         \<and> 0 \<le> sint (tp_value t) * sint (numerator r) + 500000000 * sint (denominator r)
       \<longrightarrow> timestampToIndex r t = word_of_int (spec_index r t)
           \<and> (spec_index r t < 2 ^ 64 \<longrightarrow> uint (timestampToIndex r t) = spec_index r t))
    \<and> (0 < sint (numerator r) \<and> 0 < sint (denominator r)
         \<and> uint i * sint (denominator r) * 1000000000 + sint (numerator r) div 2 < 2 ^ 127
       \<longrightarrow> tp_value (indexToTimestamp r i) = word_of_int (spec_timestamp r i)
           \<and> (spec_timestamp r i < 2 ^ 63
                \<longrightarrow> sint (tp_value (indexToTimestamp r i)) = spec_timestamp r i))"
proof (intro conjI impI)
  show "timestampToIndex r t =
           word_of_int ((sint (tp_value t) * sint (numerator r) + 500000000 * sint (denominator r))
                          sdiv (1000000000 * sint (denominator r)))"
    by (rule timestampToIndex_int [OF assms(2,1)])
next
  assume h: "0 < sint (denominator r)
    \<and> 0 \<le> sint (tp_value t) * sint (numerator r) + 500000000 * sint (denominator r)"
  then show f: "timestampToIndex r t = word_of_int (spec_index r t)"
    using timestampToIndex_floor [OF assms(1)] by blast
  assume "spec_index r t < 2 ^ 64"
  with f spec_index_nonneg [of r t] h show "uint (timestampToIndex r t) = spec_index r t"
    by (simp only: uint64_of_int)
next
  assume h: "0 < sint (numerator r) \<and> 0 < sint (denominator r)
    \<and> uint i * sint (denominator r) * 1000000000 + sint (numerator r) div 2 < 2 ^ 127"
  then show "tp_value (indexToTimestamp r i) = word_of_int (spec_timestamp r i)"
    using indexToTimestamp_floor by blast
  assume "spec_timestamp r i < 2 ^ 63"
  with h show "sint (tp_value (indexToTimestamp r i)) = spec_timestamp r i"
    using sint_indexToTimestamp_floor by blast
qed

text \<open>The theorem at the NTSC rate, for one second and for index 30.\<close>

theorem conversions_exact_quotients_witness:
  "uint (timestampToIndex ntsc \<lparr>tp_value = 1000000000\<rparr>)
      = spec_index ntsc \<lparr>tp_value = 1000000000\<rparr>
   \<and> sint (tp_value (indexToTimestamp ntsc 30)) = spec_timestamp ntsc 30"
  using conversions_exact_quotients [of ntsc "\<lparr>tp_value = 1000000000\<rparr>" 30]
  by (simp add: ntsc_fields spec_index_def spec_timestamp_def)

text \<open>
  The floor formula does not describe negative timepoints: at 25 grains per second, 30 ms
  before the epoch, C++ division truncates \<open>-250000000 / 1000000000\<close> to 0, where the
  floor is \<open>-1\<close>.
\<close>

theorem floor_formula_negative_time_counterexample:
  "timestampToIndex \<lparr>numerator = 25, denominator = 1\<rparr> \<lparr>tp_value = - 30000000\<rparr> = 0
   \<and> spec_index \<lparr>numerator = 25, denominator = 1\<rparr> \<lparr>tp_value = - 30000000\<rparr> = - 1
   \<and> timestampToIndex \<lparr>numerator = 25, denominator = 1\<rparr> \<lparr>tp_value = - 30000000\<rparr>
       \<noteq> word_of_int (spec_index \<lparr>numerator = 25, denominator = 1\<rparr> \<lparr>tp_value = - 30000000\<rparr>)"
proof -
  have i: "timestampToIndex \<lparr>numerator = 25, denominator = 1\<rparr> \<lparr>tp_value = - 30000000\<rparr> = 0"
    by (simp add: timestampToIndex_int signed_divide_int_def)
  have s: "spec_index \<lparr>numerator = 25, denominator = 1\<rparr> \<lparr>tp_value = - 30000000\<rparr> = - 1"
    by (simp add: spec_index_def)
  show ?thesis unfolding i s by simp
qed

subsection \<open>Round trip from a timestamp\<close>

text \<open>
  Claim C1, as amended. For every edit rate with positive numerator and denominator and
  every timepoint \<open>t\<close> with \<open>t*num + 5*10\<^sup>8*den \<ge> 0\<close> (so every \<open>t \<ge> 0\<close>) whose index is
  below \<open>2\<^sup>6\<^sup>4\<close> and whose reconstructed timestamp is below \<open>2\<^sup>6\<^sup>3\<close>,
  \<open>indexToTimestamp (timestampToIndex t)\<close> differs from \<open>t\<close> by at most
  \<open>\<lceil>10\<^sup>9*den / (2*num)\<rceil>\<close> nanoseconds.
\<close>

theorem round_trip_within_bound:
  assumes N: "0 < sint (numerator r)" and D: "0 < sint (denominator r)"
    and nn: "0 \<le> sint (tp_value t) * sint (numerator r) + 500000000 * sint (denominator r)"
    and fit_index: "spec_index r t < 2 ^ 64"
    and fit_time: "spec_timestamp r (timestampToIndex r t) < 2 ^ 63"
  shows "\<bar>sint (tp_value (indexToTimestamp r (timestampToIndex r t))) - sint (tp_value t)\<bar>
           \<le> round_trip_bound r"
proof -
  let ?i = "timestampToIndex r t"
  have q: "uint ?i = spec_index r t"
    by (rule uint_timestampToIndex_floor [OF N D nn fit_index])
  have "uint ?i * sint (denominator r) * 1000000000 + sint (numerator r) div 2 < 2 ^ 127"
    unfolding q by (rule round_trip_no_overflow [OF N D nn])
  from sint_indexToTimestamp_floor [OF N D this fit_time]
  have ts: "sint (tp_value (indexToTimestamp r ?i)) = spec_timestamp r ?i" .
  have "\<bar>spec_timestamp r ?i - sint (tp_value t)\<bar> \<le> round_trip_bound r"
  proof (rule round_trip_int [OF N D])
    show "spec_index r t = (sint (tp_value t) * sint (numerator r) + 500000000 * sint (denominator r))
            div (1000000000 * sint (denominator r))"
      by (simp add: spec_index_def)
    show "spec_timestamp r ?i
            = (spec_index r t * sint (denominator r) * 1000000000 + sint (numerator r) div 2)
                div sint (numerator r)"
      by (simp add: spec_timestamp_def q)
    show "1000000000 * sint (denominator r) \<le> 2 * sint (numerator r) * round_trip_bound r"
      using round_trip_bound_ge [OF N] by simp
  qed
  then show ?thesis by (simp only: ts)
qed

text \<open>The theorem at the NTSC rate, one second after the epoch.\<close>

theorem round_trip_within_bound_witness:
  "\<bar>sint (tp_value (indexToTimestamp ntsc (timestampToIndex ntsc \<lparr>tp_value = 1000000000\<rparr>)))
      - sint (tp_value \<lparr>tp_value = 1000000000\<rparr>)\<bar> \<le> round_trip_bound ntsc"
  using round_trip_within_bound [of ntsc "\<lparr>tp_value = 1000000000\<rparr>"]
  by (simp add: ntsc_index_of_second ntsc_fields spec_index_def spec_timestamp_def)

text \<open>
  The bound fails for negative timepoints: at 25 grains per second, 30 ms before the epoch
  is mapped to index 0 and back to the epoch, 30 ms away, while the bound is 20 ms.
\<close>

theorem round_trip_negative_time_counterexample:
  "\<not> \<bar>sint (tp_value (indexToTimestamp \<lparr>numerator = 25, denominator = 1\<rparr>
              (timestampToIndex \<lparr>numerator = 25, denominator = 1\<rparr> \<lparr>tp_value = - 30000000\<rparr>)))
          - sint (tp_value \<lparr>tp_value = - 30000000\<rparr>)\<bar>
        \<le> round_trip_bound \<lparr>numerator = 25, denominator = 1\<rparr>"
proof -
  have i: "timestampToIndex \<lparr>numerator = 25, denominator = 1\<rparr> \<lparr>tp_value = - 30000000\<rparr> = 0"
    by (simp add: timestampToIndex_int signed_divide_int_def)
  have t: "tp_value (indexToTimestamp \<lparr>numerator = 25, denominator = 1\<rparr> 0) = 0"
    by (simp add: indexToTimestamp_int signed_divide_int_def)
  have b: "round_trip_bound \<lparr>numerator = 25, denominator = 1\<rparr> = 20000000"
    by (simp add: round_trip_bound_int)
  show ?thesis by (simp add: i t b)
qed

subsection \<open>The NTSC scenario\<close>

lemma ntsc_time_of_index:
  assumes "uint i \<le> 10 ^ 6"
  shows "sint (tp_value (indexToTimestamp ntsc i)) = (uint i * 1001000000000 + 15000) div 30000"
proof -
  have o: "uint i * sint (denominator ntsc) * 1000000000 + sint (numerator ntsc) div 2 < 2 ^ 127"
    using assms by (simp add: ntsc_fields)
  have "(uint i * 1001000000000 + 15000) div 30000 \<le> (10 ^ 6 * 1001000000000 + 15000) div 30000"
    using assms by (intro zdiv_mono1) auto
  then have "spec_timestamp ntsc i < 2 ^ 63"
    by (simp add: spec_timestamp_def ntsc_fields)
  from sint_indexToTimestamp_floor [OF _ _ o this]
  show ?thesis by (simp add: ntsc_fields spec_timestamp_def)
qed

lemma ntsc_round_trip_index:
  assumes "uint i \<le> 10 ^ 6"
  shows "timestampToIndex ntsc (indexToTimestamp ntsc i) = i"
proof -
  define ts where "ts = (uint i * 1001000000000 + 15000) div 30000"
  have ts: "sint (tp_value (indexToTimestamp ntsc i)) = ts"
    unfolding ts_def by (rule ntsc_time_of_index [OF assms])
  from int_div_bounds [of 30000 "uint i * 1001000000000 + 15000"]
  have b: "30000 * ts \<le> uint i * 1001000000000 + 15000"
      "uint i * 1001000000000 + 15000 < 30000 * ts + 30000"
    unfolding ts_def by simp_all
  have "(ts * 30000 + 500500000000) div 1001000000000 = uint i"
    by (rule int_div_unique) (use b in simp_all)
  moreover have "0 \<le> ts" unfolding ts_def by (simp add: pos_imp_zdiv_nonneg_iff)
  ultimately have "timestampToIndex ntsc (indexToTimestamp ntsc i) = word_of_int (uint i)"
    by (simp add: timestampToIndex_int ntsc_fields ts sdiv_eq_div_nonneg)
  then show ?thesis by simp
qed

text \<open>
  Claim C4, as amended. At the edit rate 30000/1001, the timestamp 1000000000 ns has index
  30, index 30 has the timestamp 1001000000 ns, and every index from 0 to \<open>10\<^sup>6\<close> is
  recovered from its timestamp.
\<close>

theorem ntsc_scenario:
  "timestampToIndex ntsc \<lparr>tp_value = 1000000000\<rparr> = 30
   \<and> indexToTimestamp ntsc 30 = \<lparr>tp_value = 1001000000\<rparr>
   \<and> (\<forall>index. uint index \<le> 10 ^ 6 \<longrightarrow> timestampToIndex ntsc (indexToTimestamp ntsc index) = index)"
proof (intro conjI allI impI)
  show "timestampToIndex ntsc \<lparr>tp_value = 1000000000\<rparr> = 30"
    by (rule ntsc_index_of_second)
  have "tp_value (indexToTimestamp ntsc 30) = 1001000000"
    by (simp add: indexToTimestamp_int ntsc_fields sdiv_eq_div_nonneg)
  then show "indexToTimestamp ntsc 30 = \<lparr>tp_value = 1001000000\<rparr>"
    by (cases "indexToTimestamp ntsc 30") simp
next
  fix index :: "64 word"
  assume "uint index \<le> 10 ^ 6"
  then show "timestampToIndex ntsc (indexToTimestamp ntsc index) = index"
    by (rule ntsc_round_trip_index)
qed

text \<open>The round trip of the theorem at the last index of the range.\<close>

theorem ntsc_scenario_witness:
  "timestampToIndex ntsc (indexToTimestamp ntsc 1000000) = 1000000"
  using ntsc_scenario by simp

text \<open>
  Index 30 lies at 1.001 s, outside the interval from 999966666 ns to 1000000000 ns.
\<close>

theorem ntsc_scenario_counterexample:
  "\<not> (999966666 \<le> sint (tp_value (indexToTimestamp ntsc 30))
       \<and> sint (tp_value (indexToTimestamp ntsc 30)) \<le> 1000000000)"
proof -
  have "tp_value (indexToTimestamp ntsc 30) = 1001000000"
    by (simp add: indexToTimestamp_int ntsc_fields sdiv_eq_div_nonneg)
  then show ?thesis by simp
qed

section \<open>The synchronization group, verified\<close>

subsection \<open>Enrollment\<close>

lemma addReader_discrete_enrolled:
  assumes "r \<in> reader ` set xs"
  shows "\<exists>i<length xs. reader (xs ! i) = r \<and> (\<forall>j<i. reader (xs ! j) \<noteq> r)
           \<and> addReader_discrete env xs r m = xs[i := (xs ! i)\<lparr>minValidSlices := m\<rparr>]
           \<and> removeReader xs r = take i xs @ drop (Suc i) xs"
  using assms
proof (induction xs)
  case Nil
  then show ?case by simp
next
  case (Cons current rest)
  show ?case
  proof (cases "reader current = r")
    case True
    then show ?thesis by (intro exI [of _ 0]) simp
  next
    case False
    with Cons.prems have "r \<in> reader ` set rest" by auto
    from Cons.IH [OF this] obtain i where i: "i < length rest" "reader (rest ! i) = r"
      "\<forall>j<i. reader (rest ! j) \<noteq> r"
      "addReader_discrete env rest r m = rest[i := (rest ! i)\<lparr>minValidSlices := m\<rparr>]"
      "removeReader rest r = take i rest @ drop (Suc i) rest"
      by blast
    have "\<forall>j<Suc i. reader ((current # rest) ! j) \<noteq> r"
      using False i(3) by (auto simp: nth_Cons split: nat.splits)
    with i False show ?thesis by (intro exI [of _ "Suc i"]) simp
  qed
qed

lemma addReader_continuous_enrolled:
  "r \<in> reader ` set xs \<Longrightarrow> addReader_continuous env xs r = xs"
  by (induction xs) auto

lemma removeReader_absent: "r \<notin> reader ` set xs \<Longrightarrow> removeReader xs r = xs"
  by (induction xs) auto

lemma addReader_discrete_new:
  "r \<notin> reader ` set xs \<Longrightarrow> addReader_discrete env xs r m = xs @ [ListEntry_discrete env r m]"
  by (induction xs) auto

lemma addReader_continuous_new:
  "r \<notin> reader ` set xs \<Longrightarrow> addReader_continuous env xs r = xs @ [ListEntry_continuous env r]"
  by (induction xs) auto

lemma reader_ListEntry [simp]:
  "reader (ListEntry_discrete env r m) = r" "reader (ListEntry_continuous env r) = r"
  by (simp_all add: ListEntry_discrete_def ListEntry_continuous_def ListEntry_base_def)

lemma readers_addReader_discrete:
  "map reader (addReader_discrete env xs r m)
     = (if r \<in> reader ` set xs then map reader xs else map reader xs @ [r])"
  by (induction xs) auto

lemma readers_addReader_continuous:
  "map reader (addReader_continuous env xs r)
     = (if r \<in> reader ` set xs then map reader xs else map reader xs @ [r])"
  by (induction xs) auto

lemma addReader_discrete_twice:
  "addReader_discrete env (addReader_discrete env xs r m) r m = addReader_discrete env xs r m"
proof -
  have "(ListEntry_discrete env r m)\<lparr>minValidSlices := m\<rparr> = ListEntry_discrete env r m"
    by (simp add: ListEntry_discrete_def)
  then show ?thesis by (induction xs) auto
qed

lemma addReader_continuous_twice:
  "addReader_continuous env (addReader_continuous env xs r) r = addReader_continuous env xs r"
  by (induction xs) auto

lemma removeReader_gone:
  "distinct (map reader xs) \<Longrightarrow> r \<notin> reader ` set (removeReader xs r)"
  by (induction xs) auto

text \<open>
  Claim C8. Enrollment goes by the identity of the reader. Adding a discrete reader that
  is already enrolled changes only the \<open>minValidSlices\<close> of its entry, and adding a
  continuous reader that is already enrolled changes nothing; adding a reader twice is the
  same as adding it once, and no reader comes to be enrolled twice. \<open>removeReader\<close> removes
  the entry of the reader when there is one and leaves the group as it is otherwise.
\<close>

theorem enrollment_by_identity:
  "(r \<in> reader ` set xs \<longrightarrow>
      (\<exists>i<length xs. reader (xs ! i) = r \<and> (\<forall>j<i. reader (xs ! j) \<noteq> r)
         \<and> addReader_discrete env xs r m = xs[i := (xs ! i)\<lparr>minValidSlices := m\<rparr>]
         \<and> removeReader xs r = take i xs @ drop (Suc i) xs)
      \<and> addReader_continuous env xs r = xs)
   \<and> (r \<notin> reader ` set xs \<longrightarrow> removeReader xs r = xs)
   \<and> addReader_discrete env (addReader_discrete env xs r m) r m = addReader_discrete env xs r m
   \<and> addReader_continuous env (addReader_continuous env xs r) r = addReader_continuous env xs r
   \<and> (distinct (map reader xs) \<longrightarrow>
        distinct (map reader (addReader_discrete env xs r m))
        \<and> distinct (map reader (addReader_continuous env xs r))
        \<and> r \<notin> reader ` set (removeReader xs r)
        \<and> removeReader (removeReader xs r) r = removeReader xs r)"
proof (intro conjI impI)
  assume "r \<in> reader ` set xs"
  then show "\<exists>i<length xs. reader (xs ! i) = r \<and> (\<forall>j<i. reader (xs ! j) \<noteq> r)
         \<and> addReader_discrete env xs r m = xs[i := (xs ! i)\<lparr>minValidSlices := m\<rparr>]
         \<and> removeReader xs r = take i xs @ drop (Suc i) xs"
    by (rule addReader_discrete_enrolled)
next
  assume "r \<in> reader ` set xs"
  then show "addReader_continuous env xs r = xs" by (rule addReader_continuous_enrolled)
next
  assume "r \<notin> reader ` set xs"
  then show "removeReader xs r = xs" by (rule removeReader_absent)
next
  show "addReader_discrete env (addReader_discrete env xs r m) r m = addReader_discrete env xs r m"
    by (rule addReader_discrete_twice)
next
  show "addReader_continuous env (addReader_continuous env xs r) r = addReader_continuous env xs r"
    by (rule addReader_continuous_twice)
next
  assume d: "distinct (map reader xs)"
  then show "distinct (map reader (addReader_discrete env xs r m))"
    by (simp add: readers_addReader_discrete)
  from d show "distinct (map reader (addReader_continuous env xs r))"
    by (simp add: readers_addReader_continuous)
  from d show gone: "r \<notin> reader ` set (removeReader xs r)" by (rule removeReader_gone)
  then show "removeReader (removeReader xs r) r = removeReader xs r" by (rule removeReader_absent)
qed

lemma three_readers_list:
  "three_readers =
     [\<lparr>reader = 1, minValidSlices = 1, variant = Discrete,
        grainRate = \<lparr>numerator = 25, denominator = 1\<rparr>, maxObservedSourceDelay = 0\<rparr>,
      \<lparr>reader = 2, minValidSlices = 1, variant = Discrete,
        grainRate = \<lparr>numerator = 25, denominator = 1\<rparr>, maxObservedSourceDelay = 0\<rparr>,
      \<lparr>reader = 3, minValidSlices = 1, variant = Discrete,
        grainRate = \<lparr>numerator = 25, denominator = 1\<rparr>, maxObservedSourceDelay = 0\<rparr>]"
  by (simp add: three_readers_def ListEntry_discrete_def ListEntry_base_def sim_env_def)

text \<open>
  The theorem on the group of the three simulated readers, for reader 2, which is
  enrolled, and for reader 7, which is not.
\<close>

theorem enrollment_by_identity_witness:
  "(\<exists>i<length three_readers. reader (three_readers ! i) = 2
        \<and> (\<forall>j<i. reader (three_readers ! j) \<noteq> 2)
        \<and> addReader_discrete sim_env three_readers 2 8
             = three_readers[i := (three_readers ! i)\<lparr>minValidSlices := 8\<rparr>]
        \<and> removeReader three_readers 2 = take i three_readers @ drop (Suc i) three_readers)
   \<and> addReader_continuous sim_env three_readers 2 = three_readers
   \<and> removeReader three_readers 7 = three_readers
   \<and> distinct (map reader (addReader_discrete sim_env three_readers 2 8))
   \<and> removeReader (removeReader three_readers 2) 2 = removeReader three_readers 2"
  using enrollment_by_identity [of 2 three_readers sim_env 8]
    enrollment_by_identity [of 7 three_readers sim_env 8]
  by (simp add: three_readers_list)

subsection \<open>One visit, and the whole loop\<close>

text \<open>
  A visit that lets the loop go on leaves the list as it is, or raises the delay of the
  visited entry, or raises it and moves the successor of the visited entry to the front.
\<close>

lemma observeSourceDelay_cases:
  assumes "observeSourceDelay w xs i a c = Advance w' xs' \<or> observeSourceDelay w xs i a c = Promoted w' xs'"
  shows "w' = w \<and> (xs' = xs
     \<or> (Timepoint_greater c a
         \<and> sint (maxObservedSourceDelay (xs ! i)) < sint (Timepoint_minus c a)
         \<and> (xs' = xs[i := (xs ! i)\<lparr>maxObservedSourceDelay := Timepoint_minus c a\<rparr>]
            \<or> (Suc i < length xs
                \<and> xs' = splice_after_before_begin
                      (xs[i := (xs ! i)\<lparr>maxObservedSourceDelay := Timepoint_minus c a\<rparr>]) i))))"
  using assms by (auto simp: observeSourceDelay_def Let_def split: if_splits)

lemma visit_cases:
  assumes "visit env ot dl w xs i = Advance w' xs' \<or> visit env ot dl w xs i = Promoted w' xs'"
  shows "xs' = xs
     \<or> (\<exists>d. sint (maxObservedSourceDelay (xs ! i)) < sint d
          \<and> (xs' = raised xs i d
              \<or> (Suc i < length xs \<and> xs' = splice_after_before_begin (raised xs i d) i)))"
  using assms unfolding raised_def
  by (auto simp: visit_def Let_def split: if_splits prod.splits dest!: observeSourceDelay_cases [OF disjI1] observeSourceDelay_cases [OF disjI2])

text \<open>
  A relation between lists that is reflexive, transitive and established by every visit
  holds between the list before and the list after the loop.
\<close>

lemma waitLoop_relates:
  assumes run: "waitLoop env ot dl w xs i = Returned s w' xs'"
    and refl: "\<And>xs. R xs xs"
    and trans: "\<And>a b c. R a b \<Longrightarrow> R b c \<Longrightarrow> R a c"
    and step: "\<And>w xs i w1 xs1. i < length xs \<Longrightarrow>
        visit env ot dl w xs i = Advance w1 xs1 \<or> visit env ot dl w xs i = Promoted w1 xs1 \<Longrightarrow> R xs xs1"
  shows "R xs xs'"
  using run step
proof (induction env ot dl w xs i rule: waitLoop.induct)
  case (1 env ot dl w xs i)
  note run = "1.prems"(1) and step = "1.prems"(2)
  show ?case
  proof (cases "i < length xs")
    case False
    with run show ?thesis by (simp add: waitLoop.simps [of env ot dl w xs i] refl)
  next
    case True
    show ?thesis
    proof (cases "visit env ot dl w xs i")
      case (Advance w1 xs1)
      with True run have "waitLoop env ot dl w1 xs1 (Suc i) = Returned s w' xs'"
        by (simp add: waitLoop.simps [of env ot dl w xs i])
      then have "R xs1 xs'"
        by (rule "1.IH"(1) [OF True Advance]) (rule step, assumption+)
      moreover from step [OF True, of w w1 xs1] Advance have "R xs xs1" by blast
      ultimately show ?thesis by (blast intro: trans)
    next
      case (Promoted w1 xs1)
      with True run have "waitLoop env ot dl w1 xs1 0 = Returned s w' xs'"
        by (simp add: waitLoop.simps [of env ot dl w xs i])
      then have "R xs1 xs'"
        by (rule "1.IH"(2) [OF True Promoted]) (rule step, assumption+)
      moreover from step [OF True, of w w1 xs1] Promoted have "R xs xs1" by blast
      ultimately show ?thesis by (blast intro: trans)
    next
      case (Return r w1)
      with True run show ?thesis
        by (simp add: waitLoop.simps [of env ot dl w xs i] refl)
    next
      case Undefined_step
      with True run show ?thesis
        by (simp add: waitLoop.simps [of env ot dl w xs i])
    qed
  qed
qed

lemma set_raised: "i < length xs \<Longrightarrow> set (raised xs i d) \<subseteq> insert ((xs ! i)\<lparr>maxObservedSourceDelay := d\<rparr>) (set xs)"
  unfolding raised_def by (rule set_update_subset_insert)

lemma length_raised [simp]: "length (raised xs i d) = length xs"
  by (simp add: raised_def)

lemma readers_raised [simp]: "map reader (raised xs i d) = map reader xs"
proof (cases "i < length xs")
  case True
  then have "reader (xs ! i) = map reader xs ! i" by simp
  then have "(map reader xs)[i := reader (xs ! i)] = map reader xs"
    by (simp only: list_update_id)
  then show ?thesis by (simp add: raised_def map_update)
next
  case False
  then have "xs[i := (xs ! i)\<lparr>maxObservedSourceDelay := d\<rparr>] = xs"
    by (intro list_update_beyond) simp
  then show ?thesis by (simp only: raised_def)
qed

lemma mset_splice:
  assumes "Suc i < length xs"
  shows "mset (splice_after_before_begin xs i) = mset xs"
proof -
  have "xs = take (Suc i) xs @ xs ! Suc i # drop (Suc (Suc i)) xs"
    using assms by (rule id_take_nth_drop)
  then have "mset xs = mset (take (Suc i) xs @ xs ! Suc i # drop (Suc (Suc i)) xs)" by simp
  then show ?thesis by (simp add: splice_after_before_begin_def)
qed

lemma set_splice: "Suc i < length xs \<Longrightarrow> set (splice_after_before_begin xs i) = set xs"
  using mset_splice [of i xs] by (metis set_mset_mset)

lemma visit_readers:
  assumes "visit env ot dl w xs i = Advance w' xs' \<or> visit env ot dl w xs i = Promoted w' xs'"
  shows "mset (map reader xs') = mset (map reader xs)"
proof -
  have "mset (map reader (splice_after_before_begin (raised xs i d) i)) = mset (map reader xs)"
    if "Suc i < length xs" for d
  proof -
    have "mset (map reader (splice_after_before_begin (raised xs i d) i))
        = image_mset reader (mset (splice_after_before_begin (raised xs i d) i))"
      by (simp only: mset_map)
    also have "\<dots> = image_mset reader (mset (raised xs i d))"
      using that by (simp only: mset_splice length_raised)
    also have "\<dots> = mset (map reader (raised xs i d))" by (simp only: mset_map)
    also have "\<dots> = mset (map reader xs)" by (simp only: readers_raised)
    finally show ?thesis .
  qed
  moreover have "mset (map reader (raised xs i d)) = mset (map reader xs)" for d
    by (simp only: readers_raised)
  ultimately show ?thesis using visit_cases [OF assms] by blast
qed

lemma waitLoop_readers:
  assumes "waitLoop env ot dl w xs i = Returned s w' xs'"
  shows "mset (map reader xs') = mset (map reader xs)"
proof (rule waitLoop_relates [OF assms, where R = "\<lambda>a b. mset (map reader b) = mset (map reader a)"])
  show "mset (map reader a) = mset (map reader a)" for a :: "ListEntry list" ..
  show "mset (map reader c) = mset (map reader a)"
    if "mset (map reader b) = mset (map reader a)" "mset (map reader c) = mset (map reader b)"
    for a b c :: "ListEntry list"
    using that by (rule trans [rotated])
  show "mset (map reader xs1) = mset (map reader xs)"
    if "visit env ot dl w xs i = Advance w1 xs1 \<or> visit env ot dl w xs i = Promoted w1 xs1"
    for w xs i w1 xs1
    using that by (rule visit_readers)
qed

lemma visit_nonneg:
  assumes "visit env ot dl w xs i = Advance w' xs' \<or> visit env ot dl w xs i = Promoted w' xs'"
    and "i < length xs" "delays_nonneg xs"
  shows "delays_nonneg xs'"
proof -
  have r: "delays_nonneg (raised xs i d)" if "sint (maxObservedSourceDelay (xs ! i)) < sint d" for d
  proof -
    have "0 \<le> sint (maxObservedSourceDelay (xs ! i))"
      using assms(2,3) by (simp add: delays_nonneg_def)
    with that have "0 \<le> sint d" by simp
    with set_raised [OF assms(2), of d] assms(3) show ?thesis
      by (auto simp: delays_nonneg_def)
  qed
  then have "delays_nonneg (splice_after_before_begin (raised xs i d) i)"
    if "sint (maxObservedSourceDelay (xs ! i)) < sint d" "Suc i < length xs" for d
    using that by (simp add: delays_nonneg_def set_splice)
  with r visit_cases [OF assms(1)] assms(3) show ?thesis by auto
qed

lemma delay_kept_refl: "delay_kept xs xs"
  by (auto simp: delay_kept_def)

lemma delay_kept_trans:
  assumes "delay_kept a b" "delay_kept b c"
  shows "delay_kept a c"
  unfolding delay_kept_def
proof
  fix e assume "e \<in> set a"
  with assms(1) obtain e1 where e1: "e1 \<in> set b" "reader e1 = reader e"
    "sint (maxObservedSourceDelay e) \<le> sint (maxObservedSourceDelay e1)"
    unfolding delay_kept_def by blast
  with assms(2) obtain e2 where e2: "e2 \<in> set c" "reader e2 = reader e1"
    "sint (maxObservedSourceDelay e1) \<le> sint (maxObservedSourceDelay e2)"
    unfolding delay_kept_def by blast
  from e1 e2 have "reader e2 = reader e
      \<and> sint (maxObservedSourceDelay e) \<le> sint (maxObservedSourceDelay e2)" by simp
  with e2(1) show "\<exists>e'\<in>set c. reader e' = reader e
      \<and> sint (maxObservedSourceDelay e) \<le> sint (maxObservedSourceDelay e')" by blast
qed

lemma delay_kept_raised:
  assumes "i < length xs" "sint (maxObservedSourceDelay (xs ! i)) < sint d"
  shows "delay_kept xs (raised xs i d)"
  unfolding delay_kept_def
proof
  fix e assume "e \<in> set xs"
  then obtain j where j: "j < length xs" "xs ! j = e" by (auto simp: in_set_conv_nth)
  have "raised xs i d ! j \<in> set (raised xs i d)" using j(1) by simp
  moreover have "reader (raised xs i d ! j) = reader e
      \<and> sint (maxObservedSourceDelay e) \<le> sint (maxObservedSourceDelay (raised xs i d ! j))"
    using j assms by (cases "j = i") (auto simp: raised_def)
  ultimately show "\<exists>e'\<in>set (raised xs i d). reader e' = reader e
      \<and> sint (maxObservedSourceDelay e) \<le> sint (maxObservedSourceDelay e')" by blast
qed

lemma visit_delay_kept:
  assumes "visit env ot dl w xs i = Advance w' xs' \<or> visit env ot dl w xs i = Promoted w' xs'"
    and "i < length xs"
  shows "delay_kept xs xs'"
proof -
  have "delay_kept xs (splice_after_before_begin (raised xs i d) i)"
    if "sint (maxObservedSourceDelay (xs ! i)) < sint d" "Suc i < length xs" for d
    using delay_kept_raised [OF assms(2) that(1)] that(2)
    by (simp add: delay_kept_def set_splice)
  with visit_cases [OF assms(1)] delay_kept_raised [OF assms(2)] delay_kept_refl
  show ?thesis by auto
qed

lemma waitLoop_nonneg:
  assumes "waitLoop env ot dl w xs i = Returned s w' xs'" "delays_nonneg xs"
  shows "delays_nonneg xs'"
proof -
  have "delays_nonneg xs \<longrightarrow> delays_nonneg xs'"
  proof (rule waitLoop_relates [OF assms(1), where R = "\<lambda>a b. delays_nonneg a \<longrightarrow> delays_nonneg b"])
    show "delays_nonneg a \<longrightarrow> delays_nonneg a" for a by simp
    show "delays_nonneg a \<longrightarrow> delays_nonneg c"
      if "delays_nonneg a \<longrightarrow> delays_nonneg b" "delays_nonneg b \<longrightarrow> delays_nonneg c" for a b c
      using that by simp
    show "delays_nonneg xs \<longrightarrow> delays_nonneg xs1"
      if "i < length xs"
        "visit env ot dl w xs i = Advance w1 xs1 \<or> visit env ot dl w xs i = Promoted w1 xs1"
      for w xs i w1 xs1
      using visit_nonneg [OF that(2,1)] by simp
  qed
  with assms(2) show ?thesis by simp
qed

lemma waitLoop_delay_kept:
  assumes "waitLoop env ot dl w xs i = Returned s w' xs'"
  shows "delay_kept xs xs'"
proof (rule waitLoop_relates [OF assms, where R = delay_kept])
  show "delay_kept a a" for a by (rule delay_kept_refl)
  show "delay_kept a c" if "delay_kept a b" "delay_kept b c" for a b c
    using that by (rule delay_kept_trans)
  show "delay_kept xs xs1"
    if "i < length xs"
      "visit env ot dl w xs i = Advance w1 xs1 \<or> visit env ot dl w xs i = Promoted w1 xs1"
    for w xs i w1 xs1
    using that(2,1) by (rule visit_delay_kept)
qed

subsection \<open>Delays under the operations\<close>

lemma delay_new_entry [simp]:
  "maxObservedSourceDelay (ListEntry_discrete env r m) = 0"
  "maxObservedSourceDelay (ListEntry_continuous env r) = 0"
  by (simp_all add: ListEntry_discrete_def ListEntry_continuous_def ListEntry_base_def)

lemma addReader_discrete_untouched: "delay_untouched xs (addReader_discrete env xs r m)"
proof (cases "r \<in> reader ` set xs")
  case True
  from addReader_discrete_enrolled [OF this, of env m] obtain i where i: "i < length xs"
    "addReader_discrete env xs r m = xs[i := (xs ! i)\<lparr>minValidSlices := m\<rparr>]" by blast
  show ?thesis
    unfolding delay_untouched_def i(2)
  proof
    fix e' assume "e' \<in> set (xs[i := (xs ! i)\<lparr>minValidSlices := m\<rparr>])"
    with set_update_subset_insert [of xs i] have "e' = (xs ! i)\<lparr>minValidSlices := m\<rparr> \<or> e' \<in> set xs"
      by blast
    moreover have "xs ! i \<in> set xs" using i(1) by simp
    ultimately have "\<exists>e\<in>set xs. reader e = reader e' \<and> maxObservedSourceDelay e' = maxObservedSourceDelay e"
      by auto
    then show "(\<exists>e\<in>set xs. reader e = reader e' \<and> maxObservedSourceDelay e' = maxObservedSourceDelay e)
        \<or> (reader e' \<notin> reader ` set xs \<and> maxObservedSourceDelay e' = 0)" ..
  qed
next
  case False
  then show ?thesis
    by (auto simp: addReader_discrete_new delay_untouched_def)
qed

lemma addReader_continuous_untouched: "delay_untouched xs (addReader_continuous env xs r)"
proof (cases "r \<in> reader ` set xs")
  case True
  then show ?thesis by (auto simp: addReader_continuous_enrolled delay_untouched_def)
next
  case False
  then show ?thesis
    by (auto simp: addReader_continuous_new delay_untouched_def)
qed

lemma set_removeReader: "set (removeReader xs r) \<subseteq> set xs"
  by (induction xs) auto

lemma removeReader_untouched: "delay_untouched xs (removeReader xs r)"
  using set_removeReader [of xs r] by (auto simp: delay_untouched_def)

lemma removeReader_keeps_others:
  "e \<in> set xs \<Longrightarrow> reader e \<noteq> r \<Longrightarrow> e \<in> set (removeReader xs r)"
  by (induction xs) auto

lemma addReader_discrete_kept: "delay_kept xs (addReader_discrete env xs r m)"
proof (cases "r \<in> reader ` set xs")
  case True
  from addReader_discrete_enrolled [OF this, of env m] obtain i where i: "i < length xs"
    "addReader_discrete env xs r m = xs[i := (xs ! i)\<lparr>minValidSlices := m\<rparr>]" by blast
  show ?thesis
    unfolding delay_kept_def i(2)
  proof
    fix e assume "e \<in> set xs"
    then obtain j where j: "j < length xs" "xs ! j = e" by (auto simp: in_set_conv_nth)
    let ?ys = "xs[i := (xs ! i)\<lparr>minValidSlices := m\<rparr>]"
    have "?ys ! j \<in> set ?ys" using j(1) by simp
    moreover have "reader (?ys ! j) = reader e
        \<and> sint (maxObservedSourceDelay e) \<le> sint (maxObservedSourceDelay (?ys ! j))"
      using j by (cases "j = i") auto
    ultimately show "\<exists>e'\<in>set ?ys. reader e' = reader e
        \<and> sint (maxObservedSourceDelay e) \<le> sint (maxObservedSourceDelay e')" by blast
  qed
next
  case False
  then show ?thesis by (auto simp: addReader_discrete_new delay_kept_def)
qed

lemma addReader_continuous_kept: "delay_kept xs (addReader_continuous env xs r)"
proof (cases "r \<in> reader ` set xs")
  case True
  then show ?thesis by (simp add: addReader_continuous_enrolled delay_kept_refl)
next
  case False
  then show ?thesis by (auto simp: addReader_continuous_new delay_kept_def)
qed

lemma perform_nonneg:
  assumes "perform env xs c = Some xs'" "delays_nonneg xs"
  shows "delays_nonneg xs'"
proof (cases c)
  case (AddDiscrete r m)
  with assms addReader_discrete_untouched [of xs env r m] show ?thesis
    by (fastforce simp: delays_nonneg_def delay_untouched_def)
next
  case (AddContinuous r)
  with assms addReader_continuous_untouched [of xs env r] show ?thesis
    by (fastforce simp: delays_nonneg_def delay_untouched_def)
next
  case (Remove r)
  with assms set_removeReader [of xs r] show ?thesis
    by (auto simp: delays_nonneg_def)
next
  case (WaitForDataAt w ot dl)
  with assms(1) obtain s w' where "waitLoop env ot dl w xs 0 = Returned s w' xs'"
    by (auto simp: waitForDataAt_def split: outcome.splits)
  from waitLoop_nonneg [OF this assms(2)] show ?thesis .
qed

lemma run_nonneg:
  assumes "run env xs cs = Some xs'" "delays_nonneg xs"
  shows "delays_nonneg xs'"
  using assms
proof (induction cs arbitrary: xs)
  case Nil
  then show ?case by simp
next
  case (Cons c cs)
  then obtain ys where ys: "perform env xs c = Some ys" "run env ys cs = Some xs'"
    by (auto split: option.splits)
  from Cons.IH [OF ys(2) perform_nonneg [OF ys(1) Cons.prems(2)]] show ?case .
qed

lemma perform_kept:
  assumes "perform env xs c = Some xs'" "e \<in> set xs" "c \<noteq> Remove (reader e)"
  shows "\<exists>e'\<in>set xs'. reader e' = reader e
           \<and> sint (maxObservedSourceDelay e) \<le> sint (maxObservedSourceDelay e')"
proof (cases c)
  case (AddDiscrete r m)
  with assms addReader_discrete_kept [of xs env r m] show ?thesis
    by (auto simp: delay_kept_def)
next
  case (AddContinuous r)
  with assms addReader_continuous_kept [of xs env r] show ?thesis
    by (auto simp: delay_kept_def)
next
  case (Remove r)
  with assms have "e \<in> set xs'" by (auto intro: removeReader_keeps_others)
  then show ?thesis by auto
next
  case (WaitForDataAt w ot dl)
  with assms(1) obtain s w' where "waitLoop env ot dl w xs 0 = Returned s w' xs'"
    by (auto simp: waitForDataAt_def split: outcome.splits)
  from waitLoop_delay_kept [OF this] assms(2) show ?thesis by (auto simp: delay_kept_def)
qed

lemma run_kept:
  assumes "run env xs cs = Some xs'" "e \<in> set xs" "Remove (reader e) \<notin> set cs"
  shows "\<exists>e'\<in>set xs'. reader e' = reader e
           \<and> sint (maxObservedSourceDelay e) \<le> sint (maxObservedSourceDelay e')"
  using assms
proof (induction cs arbitrary: xs e)
  case Nil
  then show ?case by auto
next
  case (Cons c cs)
  then obtain ys where ys: "perform env xs c = Some ys" "run env ys cs = Some xs'"
    by (auto split: option.splits)
  from Cons.prems(3) have c: "c \<noteq> Remove (reader e)" "Remove (reader e) \<notin> set cs" by auto
  from perform_kept [OF ys(1) Cons.prems(2) c(1)] obtain e1 where e1: "e1 \<in> set ys"
    "reader e1 = reader e" "sint (maxObservedSourceDelay e) \<le> sint (maxObservedSourceDelay e1)"
    by blast
  from c(2) e1(2) have "Remove (reader e1) \<notin> set cs" by simp
  from Cons.IH [OF ys(2) e1(1) this] obtain e' where "e' \<in> set xs'" "reader e' = reader e1"
    "sint (maxObservedSourceDelay e1) \<le> sint (maxObservedSourceDelay e')" by blast
  with e1 show ?case by (intro bexI [of _ e']) auto
qed

text \<open>
  An entry of the list after a visit that is not an entry of the list before it is the
  visited entry, with its delay raised after a successful wait.
\<close>

lemma visit_raises:
  assumes "visit env ot dl w xs i = Advance w' xs' \<or> visit env ot dl w xs i = Promoted w' xs'"
    and "i < length xs" and "e' \<in> set xs'" and "e' \<notin> set xs"
  shows "let current = xs ! i;
             expectedIndex = timestampToIndex (grainRate current) ot;
             (headIndex, w1) = getFlowRuntimeInfo env w (reader current);
             (result, w2) = waitOnReader env w1 current expectedIndex dl;
             (currentTaiTime, w3) = currentTime env w2;
             expectedArrivalTime = indexToTimestamp (grainRate current) expectedIndex
         in headIndex < expectedIndex \<and> result = MXL_STATUS_OK
            \<and> Timepoint_greater currentTaiTime expectedArrivalTime
            \<and> e' = current\<lparr>maxObservedSourceDelay :=
                              Timepoint_minus currentTaiTime expectedArrivalTime\<rparr>
            \<and> sint (maxObservedSourceDelay current) < sint (maxObservedSourceDelay e')"
proof -
  obtain headIndex w1 where h: "getFlowRuntimeInfo env w (reader (xs ! i)) = (headIndex, w1)"
    by (cases "getFlowRuntimeInfo env w (reader (xs ! i))")
  let ?idx = "timestampToIndex (grainRate (xs ! i)) ot"
  obtain result w2 where r: "waitOnReader env w1 (xs ! i) ?idx dl = (result, w2)"
    by (cases "waitOnReader env w1 (xs ! i) ?idx dl")
  obtain now w3 where c: "currentTime env w2 = (now, w3)"
    by (cases "currentTime env w2")
  let ?at = "indexToTimestamp (grainRate (xs ! i)) ?idx"
  have neq: "xs' \<noteq> xs" using assms(3,4) by auto
  from assms(1) neq have lt: "headIndex < ?idx" and ok: "result = MXL_STATUS_OK"
    and obs: "observeSourceDelay w3 xs i ?at now = Advance w' xs'
               \<or> observeSourceDelay w3 xs i ?at now = Promoted w' xs'"
    by (auto simp: visit_def Let_def h r c split: if_splits)
  from observeSourceDelay_cases [OF obs] neq
  have g: "Timepoint_greater now ?at"
    and less: "sint (maxObservedSourceDelay (xs ! i)) < sint (Timepoint_minus now ?at)"
    and xs': "xs' = raised xs i (Timepoint_minus now ?at)
              \<or> (Suc i < length xs
                  \<and> xs' = splice_after_before_begin (raised xs i (Timepoint_minus now ?at)) i)"
    by (auto simp: raised_def)
  from xs' have "set xs' = set (raised xs i (Timepoint_minus now ?at))"
    by (auto simp: set_splice)
  with assms(3,4) set_raised [OF assms(2), of "Timepoint_minus now ?at"]
  have "e' = (xs ! i)\<lparr>maxObservedSourceDelay := Timepoint_minus now ?at\<rparr>" by auto
  with lt ok g less show ?thesis by (simp add: Let_def h r c)
qed

text \<open>
  The reader pointer of an entry is dereferenced without any test, and a status other
  than OK is always the status of a wait.
\<close>

lemma visit_destroyed:
  "\<not> readerAlive env w (reader (xs ! i)) \<Longrightarrow> visit env ot dl w xs i = Undefined_step"
  by (simp add: visit_def Let_def)

lemma waitForDataAt_destroyed:
  assumes "xs \<noteq> []" "\<not> readerAlive env w (reader (hd xs))"
  shows "waitForDataAt env w xs ot dl = Undefined"
proof -
  from assms(1) have "0 < length xs" "hd xs = xs ! 0" by (simp_all add: hd_conv_nth)
  with assms(2) show ?thesis
    by (simp add: waitForDataAt_def waitLoop.simps [of env ot dl w xs 0] visit_destroyed)
qed

lemma visit_Return_status:
  assumes "visit env ot dl w xs i = Return s w'"
  shows "s \<noteq> MXL_STATUS_OK
    \<and> (\<exists>w0 idx m. fst (waitForGrain env w0 (reader (xs ! i)) idx m dl) = s
                 \<or> fst (waitForSamples env w0 (reader (xs ! i)) idx dl) = s)"
proof -
  have no: "observeSourceDelay w3 xs i a c \<noteq> Return s w'" for w3 a c
    by (simp add: observeSourceDelay_def Let_def)
  obtain headIndex w1 where h: "getFlowRuntimeInfo env w (reader (xs ! i)) = (headIndex, w1)"
    by (cases "getFlowRuntimeInfo env w (reader (xs ! i))")
  let ?idx = "timestampToIndex (grainRate (xs ! i)) ot"
  obtain result w2 where r: "waitOnReader env w1 (xs ! i) ?idx dl = (result, w2)"
    by (cases "waitOnReader env w1 (xs ! i) ?idx dl")
  from assms have s: "result = s" "s \<noteq> MXL_STATUS_OK"
    by (auto simp: visit_def Let_def h r no split: if_splits prod.splits)
  show ?thesis
  proof (cases "variant (xs ! i)")
    case Discrete
    with r s(1) have "fst (waitForGrain env w1 (reader (xs ! i)) ?idx (minValidSlices (xs ! i)) dl) = s"
      by (simp add: waitOnReader_def)
    with s(2) show ?thesis by blast
  next
    case Continuous
    with r s(1) have "fst (waitForSamples env w1 (reader (xs ! i)) ?idx dl) = s"
      by (simp add: waitOnReader_def)
    with s(2) show ?thesis by blast
  qed
qed

lemma waitLoop_status:
  assumes "waitLoop env ot dl w xs i = Returned s w' xs'" "s \<noteq> MXL_STATUS_OK"
  shows "\<exists>w0 r idx m. fst (waitForGrain env w0 r idx m dl) = s
                     \<or> fst (waitForSamples env w0 r idx dl) = s"
  using assms
proof (induction env ot dl w xs i rule: waitLoop.induct)
  case (1 env ot dl w xs i)
  note run = "1.prems"(1)
  show ?case
  proof (cases "i < length xs")
    case False
    with run "1.prems"(2) show ?thesis by (simp add: waitLoop.simps [of env ot dl w xs i])
  next
    case True
    show ?thesis
    proof (cases "visit env ot dl w xs i")
      case (Advance w1 xs1)
      with True run have "waitLoop env ot dl w1 xs1 (Suc i) = Returned s w' xs'"
        by (simp add: waitLoop.simps [of env ot dl w xs i])
      then show ?thesis by (rule "1.IH"(1) [OF True Advance]) (rule "1.prems"(2))
    next
      case (Promoted w1 xs1)
      with True run have "waitLoop env ot dl w1 xs1 0 = Returned s w' xs'"
        by (simp add: waitLoop.simps [of env ot dl w xs i])
      then show ?thesis by (rule "1.IH"(2) [OF True Promoted]) (rule "1.prems"(2))
    next
      case (Return r w1)
      with True run have "r = s" by (simp add: waitLoop.simps [of env ot dl w xs i])
      with Return visit_Return_status [of env ot dl w xs i s w1] show ?thesis by blast
    next
      case Undefined_step
      with True run show ?thesis by (simp add: waitLoop.simps [of env ot dl w xs i])
    qed
  qed
qed

subsection \<open>The scenarios, evaluated\<close>

lemma two_readers_list:
  "two_readers =
     [\<lparr>reader = 1, minValidSlices = 1, variant = Discrete,
        grainRate = \<lparr>numerator = 25, denominator = 1\<rparr>, maxObservedSourceDelay = 0\<rparr>,
      \<lparr>reader = 2, minValidSlices = 1, variant = Discrete,
        grainRate = \<lparr>numerator = 25, denominator = 1\<rparr>, maxObservedSourceDelay = 0\<rparr>]"
  by (simp add: two_readers_def ListEntry_discrete_def ListEntry_base_def sim_env_def)

lemma index_at_4s:
  "timestampToIndex \<lparr>numerator = 25, denominator = 1\<rparr> \<lparr>tp_value = 4000000000\<rparr> = 100"
  by (simp add: timestampToIndex_int sdiv_eq_div_nonneg)

lemma time_of_index_100:
  "indexToTimestamp \<lparr>numerator = 25, denominator = 1\<rparr> 100 = \<lparr>tp_value = 4000000000\<rparr>"
proof -
  have "tp_value (indexToTimestamp \<lparr>numerator = 25, denominator = 1\<rparr> 100) = 4000000000"
    by (simp add: indexToTimestamp_int sdiv_eq_div_nonneg)
  then show ?thesis by (cases "indexToTimestamp \<lparr>numerator = 25, denominator = 1\<rparr> 100") simp
qed

lemmas sim_eval =
  waitForDataAt_def waitLoop.simps visit_def waitOnReader_def observeSourceDelay_def
  Timepoint_greater_def Timepoint_minus_def splice_after_before_begin_def Let_def
  sim_env_def sim_start_def sim_wait_def index_at_4s time_of_index_100

lemma three_readers_wait:
  "waitForDataAt sim_env sim_start three_readers \<lparr>tp_value = 4000000000\<rparr> \<lparr>tp_value = 4100000000\<rparr>
     = Returned MXL_STATUS_OK
         \<lparr>sim_head = [100, 100, 100, 100], sim_now = 4050000000, sim_gone = [],
          sim_seen = [1, 2, 3, 1, 2]\<rparr>
         [\<lparr>reader = 3, minValidSlices = 1, variant = Discrete,
            grainRate = \<lparr>numerator = 25, denominator = 1\<rparr>, maxObservedSourceDelay = 0\<rparr>,
          \<lparr>reader = 1, minValidSlices = 1, variant = Discrete,
            grainRate = \<lparr>numerator = 25, denominator = 1\<rparr>, maxObservedSourceDelay = 0\<rparr>,
          \<lparr>reader = 2, minValidSlices = 1, variant = Discrete,
            grainRate = \<lparr>numerator = 25, denominator = 1\<rparr>, maxObservedSourceDelay = 50000000\<rparr>]"
  by (simp add: three_readers_list sim_eval)

lemma two_readers_wait:
  "waitForDataAt sim_env sim_start two_readers \<lparr>tp_value = 4000000000\<rparr> \<lparr>tp_value = 4100000000\<rparr>
     = Undefined"
  by (simp add: two_readers_list sim_eval)

lemma three_readers_timeout:
  "waitForDataAt sim_env sim_start three_readers \<lparr>tp_value = 4000000000\<rparr> \<lparr>tp_value = 4010000000\<rparr>
     = Returned MXL_ERR_TIMEOUT
         \<lparr>sim_head = [100, 100, 99, 100], sim_now = 4010000000, sim_gone = [],
          sim_seen = [1, 2]\<rparr>
         three_readers"
  by (simp add: three_readers_list sim_eval)

lemma three_readers_destroyed:
  "waitForDataAt sim_env (sim_start\<lparr>sim_gone := [2]\<rparr>) three_readers
      \<lparr>tp_value = 4000000000\<rparr> \<lparr>tp_value = 4100000000\<rparr>
     = Undefined"
  by (simp add: three_readers_list sim_eval)

subsection \<open>The observed source delay\<close>

text \<open>
  Claim C9. The \<open>maxObservedSourceDelay\<close> of an entry is zero when the entry is created. Over
  any sequence of \<open>addReader\<close>, \<open>removeReader\<close> and \<open>waitForDataAt\<close> calls with defined
  behaviour it is never negative, and the delay of a reader that is not removed never
  decreases. \<open>addReader\<close> and \<open>removeReader\<close> leave the delay of every entry they keep as it
  is. Inside \<open>waitForDataAt\<close> an entry changes only when it is the visited one, its wait
  has returned OK and the TAI time read after the wait is strictly later than
  \<open>indexToTimestamp (grainRate) expectedIndex\<close>; the new delay is that difference and is
  strictly larger than the old one.
\<close>

theorem source_delay_grows_only:
  "maxObservedSourceDelay (ListEntry_discrete env r m) = 0
   \<and> maxObservedSourceDelay (ListEntry_continuous env r) = 0
   \<and> delays_nonneg []
   \<and> (delays_nonneg xs \<and> run env xs cs = Some xs' \<longrightarrow> delays_nonneg xs')
   \<and> (run env xs cs = Some xs' \<and> e \<in> set xs \<and> Remove (reader e) \<notin> set cs \<longrightarrow>
        (\<exists>e'\<in>set xs'. reader e' = reader e
           \<and> sint (maxObservedSourceDelay e) \<le> sint (maxObservedSourceDelay e')))
   \<and> delay_untouched xs (addReader_discrete env xs r m)
   \<and> delay_untouched xs (addReader_continuous env xs r)
   \<and> delay_untouched xs (removeReader xs r)
   \<and> ((visit env originTime deadline w xs i = Advance w' ys
          \<or> visit env originTime deadline w xs i = Promoted w' ys)
        \<and> i < length xs \<and> changed \<in> set ys \<and> changed \<notin> set xs \<longrightarrow>
        (let current = xs ! i;
             expectedIndex = timestampToIndex (grainRate current) originTime;
             (headIndex, w1) = getFlowRuntimeInfo env w (reader current);
             (result, w2) = waitOnReader env w1 current expectedIndex deadline;
             (currentTaiTime, w3) = currentTime env w2;
             expectedArrivalTime = indexToTimestamp (grainRate current) expectedIndex
         in headIndex < expectedIndex \<and> result = MXL_STATUS_OK
            \<and> Timepoint_greater currentTaiTime expectedArrivalTime
            \<and> changed = current\<lparr>maxObservedSourceDelay :=
                                   Timepoint_minus currentTaiTime expectedArrivalTime\<rparr>
            \<and> sint (maxObservedSourceDelay current) < sint (maxObservedSourceDelay changed)))"
proof (intro conjI impI)
  show "delays_nonneg []" by (simp add: delays_nonneg_def)
next
  assume "delays_nonneg xs \<and> run env xs cs = Some xs'"
  then have "run env xs cs = Some xs'" "delays_nonneg xs" by simp_all
  then show "delays_nonneg xs'" by (rule run_nonneg)
next
  assume "run env xs cs = Some xs' \<and> e \<in> set xs \<and> Remove (reader e) \<notin> set cs"
  then have "run env xs cs = Some xs'" "e \<in> set xs" "Remove (reader e) \<notin> set cs" by simp_all
  then show "\<exists>e'\<in>set xs'. reader e' = reader e
           \<and> sint (maxObservedSourceDelay e) \<le> sint (maxObservedSourceDelay e')"
    by (rule run_kept)
next
  assume a: "(visit env originTime deadline w xs i = Advance w' ys
          \<or> visit env originTime deadline w xs i = Promoted w' ys)
        \<and> i < length xs \<and> changed \<in> set ys \<and> changed \<notin> set xs"
  then have v: "visit env originTime deadline w xs i = Advance w' ys
          \<or> visit env originTime deadline w xs i = Promoted w' ys"
    and i: "i < length xs" and c: "changed \<in> set ys" "changed \<notin> set xs" by blast+
  from visit_raises [OF v i c]
  show "let current = xs ! i;
             expectedIndex = timestampToIndex (grainRate current) originTime;
             (headIndex, w1) = getFlowRuntimeInfo env w (reader current);
             (result, w2) = waitOnReader env w1 current expectedIndex deadline;
             (currentTaiTime, w3) = currentTime env w2;
             expectedArrivalTime = indexToTimestamp (grainRate current) expectedIndex
         in headIndex < expectedIndex \<and> result = MXL_STATUS_OK
            \<and> Timepoint_greater currentTaiTime expectedArrivalTime
            \<and> changed = current\<lparr>maxObservedSourceDelay :=
                                   Timepoint_minus currentTaiTime expectedArrivalTime\<rparr>
            \<and> sint (maxObservedSourceDelay current) < sint (maxObservedSourceDelay changed)" .
qed (simp_all add: addReader_discrete_untouched addReader_continuous_untouched
       removeReader_untouched)

lemma run_enroll_and_wait: "run sim_env [] enroll_and_wait = Some after_wait"
proof -
  have "addReader_discrete sim_env
          (addReader_discrete sim_env (addReader_discrete sim_env [] 1 1) 2 1) 3 1 = three_readers"
    by (simp only: three_readers_def)
  then show ?thesis
    by (simp add: enroll_and_wait_def three_readers_wait after_wait_def)
qed

text \<open>
  The theorem on the simulated readers: the three readers are enrolled and waited for;
  reader 2 answers 50 ms late.
\<close>

theorem source_delay_grows_only_witness:
  "run sim_env [] enroll_and_wait = Some after_wait
   \<and> delays_nonneg after_wait
   \<and> (\<exists>e'\<in>set after_wait. reader e' = 2 \<and> 0 \<le> sint (maxObservedSourceDelay e'))"
proof -
  have r: "run sim_env [] enroll_and_wait = Some after_wait" by (rule run_enroll_and_wait)
  have w: "run sim_env three_readers
             [WaitForDataAt sim_start \<lparr>tp_value = 4000000000\<rparr> \<lparr>tp_value = 4100000000\<rparr>]
           = Some after_wait"
    by (simp add: three_readers_wait after_wait_def)
  have n: "delays_nonneg []" by (simp add: delays_nonneg_def)
  from source_delay_grows_only [where xs = "[]" and cs = enroll_and_wait and xs' = after_wait
      and env = sim_env] n r
  have "delays_nonneg after_wait" by blast
  moreover
  from source_delay_grows_only [where xs = three_readers and xs' = after_wait and env = sim_env
      and cs = "[WaitForDataAt sim_start \<lparr>tp_value = 4000000000\<rparr> \<lparr>tp_value = 4100000000\<rparr>]"
      and e = "three_readers ! 1"] w
  have "\<exists>e'\<in>set after_wait. reader e' = reader (three_readers ! 1)
          \<and> sint (maxObservedSourceDelay (three_readers ! 1)) \<le> sint (maxObservedSourceDelay e')"
    by (simp add: three_readers_list)
  then have "\<exists>e'\<in>set after_wait. reader e' = 2 \<and> 0 \<le> sint (maxObservedSourceDelay e')"
    by (simp add: three_readers_list)
  ultimately show ?thesis using r by blast
qed

subsection \<open>A reader destroyed while enrolled\<close>

text \<open>
  Claim C7, as amended. The group keeps plain pointers and never tests them: when the
  reader of the first entry (or of the entry being visited) has been destroyed,
  \<open>waitForDataAt\<close> has undefined behaviour. Whenever \<open>waitForDataAt\<close> returns, the group
  holds exactly the readers it held before, and a status other than OK is a status
  returned by \<open>waitForGrain\<close> or \<open>waitForSamples\<close>: the group itself never answers
  \<open>ERR_READER_GONE\<close> and never removes an entry.
\<close>

theorem destroyed_reader_not_detected:
  "(xs \<noteq> [] \<and> \<not> readerAlive env w (reader (hd xs)) \<longrightarrow>
       waitForDataAt env w xs originTime deadline = Undefined)
   \<and> (i < length xs \<and> \<not> readerAlive env w (reader (xs ! i)) \<longrightarrow>
       visit env originTime deadline w xs i = Undefined_step)
   \<and> (waitForDataAt env w xs originTime deadline = Returned status w' xs' \<longrightarrow>
       mset (map reader xs') = mset (map reader xs)
       \<and> (status \<noteq> MXL_STATUS_OK \<longrightarrow>
            (\<exists>w0 r index m. fst (waitForGrain env w0 r index m deadline) = status
                          \<or> fst (waitForSamples env w0 r index deadline) = status)))"
proof (intro conjI impI)
  assume "xs \<noteq> [] \<and> \<not> readerAlive env w (reader (hd xs))"
  then have "xs \<noteq> []" "\<not> readerAlive env w (reader (hd xs))" by simp_all
  then show "waitForDataAt env w xs originTime deadline = Undefined"
    by (rule waitForDataAt_destroyed)
next
  assume "i < length xs \<and> \<not> readerAlive env w (reader (xs ! i))"
  then have "\<not> readerAlive env w (reader (xs ! i))" by simp
  then show "visit env originTime deadline w xs i = Undefined_step"
    by (rule visit_destroyed)
next
  assume "waitForDataAt env w xs originTime deadline = Returned status w' xs'"
  then have l: "waitLoop env originTime deadline w xs 0 = Returned status w' xs'"
    by (simp add: waitForDataAt_def)
  from waitLoop_readers [OF l] show "mset (map reader xs') = mset (map reader xs)" .
  assume "status \<noteq> MXL_STATUS_OK"
  from waitLoop_status [OF l this]
  show "\<exists>w0 r index m. fst (waitForGrain env w0 r index m deadline) = status
                          \<or> fst (waitForSamples env w0 r index deadline) = status" .
qed

text \<open>
  The theorem on the simulated readers: reader 1, the first of the group, is destroyed; and
  a wait that times out on reader 2 returns the status of that wait and keeps the group.
\<close>

theorem destroyed_reader_not_detected_witness:
  "waitForDataAt sim_env (sim_start\<lparr>sim_gone := [1]\<rparr>) three_readers
       \<lparr>tp_value = 4000000000\<rparr> \<lparr>tp_value = 4100000000\<rparr> = Undefined
   \<and> mset (map reader three_readers) = mset (map reader three_readers)
   \<and> (\<exists>w0 r index m.
         fst (waitForGrain sim_env w0 r index m \<lparr>tp_value = 4010000000\<rparr>) = MXL_ERR_TIMEOUT
         \<or> fst (waitForSamples sim_env w0 r index \<lparr>tp_value = 4010000000\<rparr>) = MXL_ERR_TIMEOUT)"
proof -
  have a: "three_readers \<noteq> [] \<and> \<not> readerAlive sim_env (sim_start\<lparr>sim_gone := [1]\<rparr>) (reader (hd three_readers))"
    by (simp add: three_readers_list sim_env_def)
  from destroyed_reader_not_detected [where xs = three_readers and env = sim_env
      and w = "sim_start\<lparr>sim_gone := [1]\<rparr>" and originTime = "\<lparr>tp_value = 4000000000\<rparr>"
      and deadline = "\<lparr>tp_value = 4100000000\<rparr>"] a
  have 1: "waitForDataAt sim_env (sim_start\<lparr>sim_gone := [1]\<rparr>) three_readers
       \<lparr>tp_value = 4000000000\<rparr> \<lparr>tp_value = 4100000000\<rparr> = Undefined" by blast
  from destroyed_reader_not_detected [where xs = three_readers and env = sim_env
      and w = sim_start and originTime = "\<lparr>tp_value = 4000000000\<rparr>"
      and deadline = "\<lparr>tp_value = 4010000000\<rparr>" and status = MXL_ERR_TIMEOUT
      and xs' = three_readers
      and w' = "\<lparr>sim_head = [100, 100, 99, 100], sim_now = 4010000000, sim_gone = [],
                 sim_seen = [1, 2]\<rparr>"] three_readers_timeout
  have 2: "mset (map reader three_readers) = mset (map reader three_readers)
       \<and> (\<exists>w0 r index m.
         fst (waitForGrain sim_env w0 r index m \<lparr>tp_value = 4010000000\<rparr>) = MXL_ERR_TIMEOUT
         \<or> fst (waitForSamples sim_env w0 r index \<lparr>tp_value = 4010000000\<rparr>) = MXL_ERR_TIMEOUT)"
    by simp
  from 1 2 show ?thesis by blast
qed

text \<open>
  Reader 2 is destroyed while enrolled: the next \<open>waitForDataAt\<close> does not return
  \<open>ERR_READER_GONE\<close>, and removes nothing; its behaviour is undefined.
\<close>

theorem destroyed_reader_counterexample:
  "waitForDataAt sim_env (sim_start\<lparr>sim_gone := [2]\<rparr>) three_readers
      \<lparr>tp_value = 4000000000\<rparr> \<lparr>tp_value = 4100000000\<rparr>
     = Undefined"
  by (rule three_readers_destroyed)

subsection \<open>The promotion\<close>

text \<open>
  A promotion is \<^verbatim>\<open>splice_after\<close> applied to the visited entry: it needs a successor,
  brings that successor to the front and leaves the visited entry one place further back.
\<close>

lemma splice_front:
  assumes "Suc i < length xs"
  shows "hd (splice_after_before_begin xs i) = xs ! Suc i"
    and "splice_after_before_begin xs i ! Suc i = xs ! i"
    and "length (splice_after_before_begin xs i) = length xs"
proof -
  show "hd (splice_after_before_begin xs i) = xs ! Suc i"
    by (simp add: splice_after_before_begin_def)
  have "(take (Suc i) xs @ drop (Suc (Suc i)) xs) ! i = xs ! i"
    using assms by (simp add: nth_append)
  then show "splice_after_before_begin xs i ! Suc i = xs ! i"
    by (simp add: splice_after_before_begin_def)
  show "length (splice_after_before_begin xs i) = length xs"
    using assms by (simp add: splice_after_before_begin_def)
qed

lemma observeSourceDelay_Promoted_form:
  assumes "observeSourceDelay w xs i a c = Promoted w' xs'"
  shows "Suc i < length xs
     \<and> xs' = splice_after_before_begin
               (xs[i := (xs ! i)\<lparr>maxObservedSourceDelay := Timepoint_minus c a\<rparr>]) i"
  using assms by (auto simp: observeSourceDelay_def Let_def split: if_splits)

lemma visit_Promoted_form:
  assumes "visit env ot dl w xs i = Promoted w' xs'"
  shows "\<exists>d. Suc i < length xs \<and> xs' = splice_after_before_begin (raised xs i d) i"
  using assms unfolding raised_def
  by (auto simp: visit_def Let_def split: if_splits prod.splits dest!: observeSourceDelay_Promoted_form)

lemma visit_Promoted_successor:
  assumes "visit env ot dl w xs i = Promoted w' xs'"
  shows "Suc i < length xs \<and> hd xs' = xs ! Suc i \<and> reader (xs' ! Suc i) = reader (xs ! i)"
proof -
  from visit_Promoted_form [OF assms] obtain d where d: "Suc i < length xs"
    "xs' = splice_after_before_begin (raised xs i d) i" by blast
  from d(1) have l: "Suc i < length (raised xs i d)" by simp
  have "raised xs i d ! Suc i = xs ! Suc i" by (simp add: raised_def)
  moreover have "reader (raised xs i d ! i) = reader (xs ! i)"
    using d(1) by (simp add: raised_def)
  ultimately show ?thesis using d splice_front(1,2) [OF l] by simp
qed

lemma three_readers_second_visit:
  "visit sim_env \<lparr>tp_value = 4000000000\<rparr> \<lparr>tp_value = 4100000000\<rparr>
      (sim_start\<lparr>sim_seen := [1]\<rparr>) three_readers 1
     = Promoted \<lparr>sim_head = [100, 100, 100, 100], sim_now = 4050000000, sim_gone = [],
                 sim_seen = [1, 2]\<rparr> after_wait"
  by (simp add: three_readers_list after_wait_def sim_eval)

lemma two_readers_second_visit:
  "visit sim_env \<lparr>tp_value = 4000000000\<rparr> \<lparr>tp_value = 4100000000\<rparr>
      (sim_start\<lparr>sim_seen := [1]\<rparr>) two_readers 1 = Undefined_step"
  by (simp add: two_readers_list sim_eval)

text \<open>
  Claim C5, at inputs where the code departs from it. Readers 1, 2 and 3 are enrolled in
  this order and reader 2 is one grain behind. The wait on reader 2 succeeds 50 ms after the
  grain was due, \<^verbatim>\<open>splice_after\<close> moves reader 3 to the front, and the iterator, which
  already designates reader 3, goes on from the front of the list: the runtime info is read
  for readers 1, 2, 3, 1, 2, so that readers 1 and 2 are visited twice in one call. With
  only readers 1 and 2 enrolled every reader has its data once the wait on reader 2 has
  succeeded, yet the call has undefined behaviour instead of returning OK.
\<close>

theorem promotion_restarts_the_pass:
  "(case waitForDataAt sim_env sim_start three_readers
           \<lparr>tp_value = 4000000000\<rparr> \<lparr>tp_value = 4100000000\<rparr> of
      Returned status w xs \<Rightarrow> status = MXL_STATUS_OK \<and> sim_seen w = [1, 2, 3, 1, 2]
    | Undefined \<Rightarrow> False)
   \<and> waitForDataAt sim_env sim_start two_readers
        \<lparr>tp_value = 4000000000\<rparr> \<lparr>tp_value = 4100000000\<rparr> = Undefined"
  by (simp add: three_readers_wait two_readers_wait)

text \<open>
  Claim C6, where the code departs from it. Whenever a visit promotes, the entry brought
  to the front is the successor of the visited entry, never the visited entry itself, which
  is found one place further back. In the call on the three simulated readers the entry
  whose delay is raised is that of reader 2 and the entry moved to the front is that of
  reader 3: the list ends in the order 3, 1, 2.
\<close>

theorem promotion_moves_the_successor:
  "(visit env originTime deadline w xs i = Promoted w' xs' \<longrightarrow>
      Suc i < length xs \<and> hd xs' = xs ! Suc i \<and> reader (xs' ! Suc i) = reader (xs ! i))
   \<and> (case waitForDataAt sim_env sim_start three_readers
             \<lparr>tp_value = 4000000000\<rparr> \<lparr>tp_value = 4100000000\<rparr> of
        Returned status w xs \<Rightarrow>
          map reader xs = [3, 1, 2] \<and> map maxObservedSourceDelay xs = [0, 0, 50000000]
      | Undefined \<Rightarrow> False)"
proof (rule conjI, rule impI)
  assume "visit env originTime deadline w xs i = Promoted w' xs'"
  then show "Suc i < length xs \<and> hd xs' = xs ! Suc i \<and> reader (xs' ! Suc i) = reader (xs ! i)"
    by (rule visit_Promoted_successor)
next
  show "case waitForDataAt sim_env sim_start three_readers
             \<lparr>tp_value = 4000000000\<rparr> \<lparr>tp_value = 4100000000\<rparr> of
        Returned status w xs \<Rightarrow>
          map reader xs = [3, 1, 2] \<and> map maxObservedSourceDelay xs = [0, 0, 50000000]
      | Undefined \<Rightarrow> False"
    by (simp add: three_readers_wait)
qed

text \<open>The general part of the theorem at the visit of reader 2 in that call.\<close>

theorem promotion_moves_the_successor_witness:
  "hd after_wait = three_readers ! 2 \<and> reader (after_wait ! 2) = reader (three_readers ! 1)"
  using promotion_moves_the_successor [where env = sim_env and xs = three_readers and i = 1
      and xs' = after_wait and originTime = "\<lparr>tp_value = 4000000000\<rparr>"
      and deadline = "\<lparr>tp_value = 4100000000\<rparr>" and w = "sim_start\<lparr>sim_seen := [1]\<rparr>"
      and w' = "\<lparr>sim_head = [100, 100, 100, 100], sim_now = 4050000000, sim_gone = [],
                 sim_seen = [1, 2]\<rparr>"]
    three_readers_second_visit
  by (simp add: numeral_2_eq_2)

text \<open>
  Claim C10, at the input where the code departs from it. With only readers 1 and 2
  enrolled, the entry of reader 2 is the last one when its delay is raised above that of
  the head: \<^verbatim>\<open>splice_after\<close> is called on an entry that has no successor, which moves no
  entry to the front and has undefined behaviour.
\<close>

theorem promotion_of_last_entry_undefined:
  "visit sim_env \<lparr>tp_value = 4000000000\<rparr> \<lparr>tp_value = 4100000000\<rparr>
      (sim_start\<lparr>sim_seen := [1]\<rparr>) two_readers 1 = Undefined_step
   \<and> length two_readers = 2"
  by (rule conjI [OF two_readers_second_visit]) (simp add: two_readers_list)

end
